theory Spec2Isabelle
  imports Main "HOL-Library.Word"
begin

unbundle bit_operations_syntax

section \<open>The persistent list the sets are stored in\<close>

text \<open>
  \<^verbatim>\<open>serializer-hints.h\<close> stores every \<^verbatim>\<open>FunctionalSet\<close> in a
  \<^verbatim>\<open>FunctionalList<T>\<close>, whose header (\<^verbatim>\<open>functional-list.h\<close>) is included
  but is not among the sources. Its cells are allocated in a \<^verbatim>\<open>Zone\<close> and never
  change afterwards, and \<^verbatim>\<open>TriviallyEquals\<close> compares the two head pointers, so
  the zone is modelled as an explicit store: the list of the cells allocated so far, the
  most recent one first. The address of a cell is the number of cells allocated up to and
  including it; address \<open>0\<close> is \<^verbatim>\<open>nullptr\<close>.

  \<^verbatim>\<open>size_t\<close> hashes are 64-bit words. The size counter of a cell counts cells of
  the store, so it cannot wrap around, and is a natural number.
\<close>

type_synonym size_t = "64 word"

record 'a ConsCell =
  cell_top :: 'a
  cell_rest :: nat
  cell_size :: nat

type_synonym 'a Zone = "'a ConsCell list"

text \<open>Modelled from the spec: dereferencing a list pointer in the zone (the cells of
  \<^verbatim>\<open>functional-list.h\<close>, which is missing). \<open>None\<close> for \<^verbatim>\<open>nullptr\<close> and
  for an address the zone never handed out.\<close>

fun cell :: "'a Zone \<Rightarrow> nat \<Rightarrow> 'a ConsCell option" where
  "cell [] p = None"
| "cell (c # z) p = (if p = Suc (length z) then Some c else cell z p)"

text \<open>Modelled from the spec: \<^verbatim>\<open>FunctionalList::Size\<close>, the size counter of the
  head cell, \<open>0\<close> for the empty list.\<close>

definition list_Size :: "'a Zone \<Rightarrow> nat \<Rightarrow> nat" where
  "list_Size z p = (case cell z p of None \<Rightarrow> 0 | Some c \<Rightarrow> cell_size c)"

text \<open>Modelled from the spec: \<^verbatim>\<open>FunctionalList::PushFront\<close>, the O(1) prepend. It
  allocates one cell in the zone, whose tail is the old list and whose counter is one more
  than the old list's, and returns the new zone and the new head.\<close>

definition PushFront :: "'a \<Rightarrow> 'a Zone \<Rightarrow> nat \<Rightarrow> 'a Zone \<times> nat" where
  "PushFront a z p =
     (\<lparr>cell_top = a, cell_rest = p, cell_size = 1 + list_Size z p\<rparr> # z, Suc (length z))"

text \<open>Modelled from the spec: \<^verbatim>\<open>FunctionalList::TriviallyEquals\<close>, the pointer
  comparison of the two heads.\<close>

definition TriviallyEquals :: "nat \<Rightarrow> nat \<Rightarrow> bool" where
  "TriviallyEquals p q = (p = q)"

text \<open>Modelled from the spec: forward iteration from \<^verbatim>\<open>begin()\<close> to
  \<^verbatim>\<open>end()\<close>, as the list of the elements met. A cell is allocated after its tail,
  so the walk goes down the addresses; the test \<open>cell_rest c < p\<close> states that, and
  holds at every cell \<open>PushFront\<close> makes.\<close>

function elements :: "'a Zone \<Rightarrow> nat \<Rightarrow> 'a list" where
  "elements z p =
     (case cell z p of
        None \<Rightarrow> []
      | Some c \<Rightarrow> cell_top c # (if cell_rest c < p then elements z (cell_rest c) else []))"
  by pat_completeness auto
termination
  by (relation "measure (\<lambda>(z, p). p)") auto

declare elements.simps [simp del]

section \<open>FunctionalSet\<close>

text \<open>
  \<^verbatim>\<open>FunctionalSet<T, EqualTo, Hasher>\<close>: the head of the backing list
  (\<^verbatim>\<open>data_\<close>, here \<open>data\<close>) and the running hash (\<^verbatim>\<open>hash_\<close>, here
  \<open>hash\<close>). The two static function objects \<^verbatim>\<open>equal_to\<close> and
  \<^verbatim>\<open>hasher\<close> are parameters of every operation, and an operation that allocates
  takes the zone and returns the new one. \<^verbatim>\<open>Union\<close> is \<open>Union_set\<close>,
  \<^verbatim>\<open>operator==\<close> is \<open>operator_eq\<close> and \<^verbatim>\<open>operator!=\<close> is
  \<open>operator_neq\<close>.
\<close>

record FunctionalSet =
  data :: nat
  hash :: size_t

definition empty_set :: FunctionalSet where
  "empty_set = \<lparr>data = 0, hash = 0\<rparr>"

definition Add ::
  "('a \<Rightarrow> 'a \<Rightarrow> bool) \<Rightarrow> ('a \<Rightarrow> size_t) \<Rightarrow> 'a \<Rightarrow> 'a Zone \<Rightarrow> FunctionalSet
    \<Rightarrow> 'a Zone \<times> FunctionalSet" where
  "Add equal_to hasher elem z s =
     (if list_ex (\<lambda>l. equal_to l elem) (elements z (data s)) then (z, s)
      else (case PushFront elem z (data s) of
              (z', p) \<Rightarrow> (z', \<lparr>data = p, hash = hash s XOR hasher elem\<rparr>)))"

text \<open>The loop \<^verbatim>\<open>for (auto const& elem : other.data_) Add(elem, zone)\<close> of
  \<^verbatim>\<open>Union\<close>: the iterator \<open>it\<close> walks the list of the other set while
  \<^verbatim>\<open>Add\<close> allocates in the zone.\<close>

function Union_loop ::
  "('a \<Rightarrow> 'a \<Rightarrow> bool) \<Rightarrow> ('a \<Rightarrow> size_t) \<Rightarrow> nat \<Rightarrow> 'a Zone \<Rightarrow> FunctionalSet
    \<Rightarrow> 'a Zone \<times> FunctionalSet" where
  "Union_loop equal_to hasher it z s =
     (case cell z it of
        None \<Rightarrow> (z, s)
      | Some c \<Rightarrow>
          (case Add equal_to hasher (cell_top c) z s of
             (z', s') \<Rightarrow>
               if cell_rest c < it then Union_loop equal_to hasher (cell_rest c) z' s'
               else (z', s')))"
  by pat_completeness auto
termination
  by (relation "measure (\<lambda>(equal_to, hasher, it, z, s). it)") auto

declare Union_loop.simps [simp del]

text \<open>\<^verbatim>\<open>Union\<close> takes \<open>other\<close> by value: the swap exchanges the \<^verbatim>\<open>data_\<close>
  of the receiver and of the local copy, and leaves both \<^verbatim>\<open>hash_\<close> fields where
  they are.\<close>

definition Union_set ::
  "('a \<Rightarrow> 'a \<Rightarrow> bool) \<Rightarrow> ('a \<Rightarrow> size_t) \<Rightarrow> FunctionalSet \<Rightarrow> 'a Zone \<Rightarrow> FunctionalSet
    \<Rightarrow> 'a Zone \<times> FunctionalSet" where
  "Union_set equal_to hasher other z s =
     (if \<not> TriviallyEquals (data s) (data other) then
        (case (if list_Size z (data s) < list_Size z (data other)
               then (s\<lparr>data := data other\<rparr>, other\<lparr>data := data s\<rparr>)
               else (s, other)) of
           (s1, other1) \<Rightarrow> Union_loop equal_to hasher (data other1) z s1)
      else (z, s))"

definition IsEmpty :: "FunctionalSet \<Rightarrow> bool" where
  "IsEmpty s = (data s = 0)"

definition Includes ::
  "('a \<Rightarrow> 'a \<Rightarrow> bool) \<Rightarrow> 'a Zone \<Rightarrow> FunctionalSet \<Rightarrow> FunctionalSet \<Rightarrow> bool" where
  "Includes equal_to z s other =
     list_all (\<lambda>other_elem. list_ex (\<lambda>this_elem. equal_to this_elem other_elem)
                              (elements z (data s)))
              (elements z (data other))"

definition Size :: "'a Zone \<Rightarrow> FunctionalSet \<Rightarrow> nat" where
  "Size z s = list_Size z (data s)"

definition Hash :: "FunctionalSet \<Rightarrow> size_t" where
  "Hash s = hash s"

definition operator_eq ::
  "('a \<Rightarrow> 'a \<Rightarrow> bool) \<Rightarrow> 'a Zone \<Rightarrow> FunctionalSet \<Rightarrow> FunctionalSet \<Rightarrow> bool" where
  "operator_eq equal_to z s other =
     (TriviallyEquals (data s) (data other) \<or>
      (list_Size z (data s) = list_Size z (data other) \<and>
       Hash s = Hash other \<and> Includes equal_to z s other \<and> Includes equal_to z other s))"

definition operator_neq ::
  "('a \<Rightarrow> 'a \<Rightarrow> bool) \<Rightarrow> 'a Zone \<Rightarrow> FunctionalSet \<Rightarrow> FunctionalSet \<Rightarrow> bool" where
  "operator_neq equal_to z s other = (\<not> operator_eq equal_to z s other)"

section \<open>Programs over sets\<close>

text \<open>
  The sets a client can build: a program is a sequence of \<^verbatim>\<open>Add\<close> and
  \<^verbatim>\<open>Union\<close> calls on set variables that all start empty and share one zone.
  \<open>AddOp i e\<close> is \<^verbatim>\<open>v_i.Add(e, zone)\<close>, \<open>UnionOp i j\<close> is
  \<^verbatim>\<open>v_i.Union(v_j, zone)\<close>.
\<close>

datatype 'a operation = AddOp nat 'a | UnionOp nat nat

record 'a state =
  zone :: "'a Zone"
  vars :: "nat \<Rightarrow> FunctionalSet"

definition initial :: "'a state" where
  "initial = \<lparr>zone = [], vars = (\<lambda>i. empty_set)\<rparr>"

fun step ::
  "('a \<Rightarrow> 'a \<Rightarrow> bool) \<Rightarrow> ('a \<Rightarrow> size_t) \<Rightarrow> 'a state \<Rightarrow> 'a operation \<Rightarrow> 'a state" where
  "step equal_to hasher st (AddOp i e) =
     (case Add equal_to hasher e (zone st) (vars st i) of
        (z', s') \<Rightarrow> \<lparr>zone = z', vars = (vars st)(i := s')\<rparr>)"
| "step equal_to hasher st (UnionOp i j) =
     (case Union_set equal_to hasher (vars st j) (zone st) (vars st i) of
        (z', s') \<Rightarrow> \<lparr>zone = z', vars = (vars st)(i := s')\<rparr>)"

definition run ::
  "('a \<Rightarrow> 'a \<Rightarrow> bool) \<Rightarrow> ('a \<Rightarrow> size_t) \<Rightarrow> 'a operation list \<Rightarrow> 'a state" where
  "run equal_to hasher ops = foldl (step equal_to hasher) initial ops"

text \<open>The elements of a set variable, in iteration order.\<close>

definition elems :: "'a state \<Rightarrow> nat \<Rightarrow> 'a list" where
  "elems st i = elements (zone st) (data (vars st i))"

section \<open>Notions used in the statements\<close>

text \<open>A zone as \<open>PushFront\<close> builds it: every cell points to an older cell or to
  \<^verbatim>\<open>nullptr\<close>, and its counter is one more than its tail's.\<close>

fun wf_zone :: "'a Zone \<Rightarrow> bool" where
  "wf_zone [] = True"
| "wf_zone (c # z) =
     (cell_rest c \<le> length z \<and> cell_size c = Suc (list_Size z (cell_rest c)) \<and> wf_zone z)"

text \<open>Membership under the supplied equality: some element of the list is equal to \<open>e\<close>.\<close>

definition member_eq :: "('a \<Rightarrow> 'a \<Rightarrow> bool) \<Rightarrow> 'a list \<Rightarrow> 'a \<Rightarrow> bool" where
  "member_eq equal_to xs e = list_ex (\<lambda>l. equal_to l e) xs"

text \<open>No two elements, at different positions, are equal under the supplied equality.\<close>

definition no_duplicates :: "('a \<Rightarrow> 'a \<Rightarrow> bool) \<Rightarrow> 'a list \<Rightarrow> bool" where
  "no_duplicates equal_to xs =
     list_all (\<lambda>i. list_all (\<lambda>j. i = j \<or> \<not> equal_to (xs ! i) (xs ! j)) [0..<length xs])
              [0..<length xs]"

text \<open>The XOR of the hashes of the elements of a list.\<close>

definition xor_hashes :: "('a \<Rightarrow> size_t) \<Rightarrow> 'a list \<Rightarrow> size_t" where
  "xor_hashes hasher xs = foldr (\<lambda>x acc. hasher x XOR acc) xs 0"

text \<open>Adding the elements of a list one after the other, first to last.\<close>

fun Add_all ::
  "('a \<Rightarrow> 'a \<Rightarrow> bool) \<Rightarrow> ('a \<Rightarrow> size_t) \<Rightarrow> 'a list \<Rightarrow> 'a Zone \<Rightarrow> FunctionalSet
    \<Rightarrow> 'a Zone \<times> FunctionalSet" where
  "Add_all equal_to hasher [] z s = (z, s)"
| "Add_all equal_to hasher (e # es) z s =
     (case Add equal_to hasher e z s of (z', s') \<Rightarrow> Add_all equal_to hasher es z' s')"

text \<open>What \<open>Add_all\<close> leaves in the list: the elements of \<open>es\<close> that were not yet
  members, the latest first, in front of the old list.\<close>

fun added :: "('a \<Rightarrow> 'a \<Rightarrow> bool) \<Rightarrow> 'a list \<Rightarrow> 'a list \<Rightarrow> 'a list" where
  "added equal_to [] xs = xs"
| "added equal_to (e # es) xs =
     added equal_to es (if member_eq equal_to xs e then xs else e # xs)"

text \<open>The invariant of the states of a program: the zone is well formed, every variable
  points into it, and in every list no element is equal to one added before it.\<close>

definition inv_state :: "('a \<Rightarrow> 'a \<Rightarrow> bool) \<Rightarrow> 'a state \<Rightarrow> bool" where
  "inv_state equal_to st \<longleftrightarrow>
     wf_zone (zone st) \<and>
     (\<forall>i. data (vars st i) \<le> length (zone st)) \<and>
     (\<forall>i. sorted_wrt (\<lambda>a b. \<not> equal_to b a) (elems st i))"

section \<open>Handles and context records\<close>

text \<open>Modelled from the spec: \<^verbatim>\<open>Handle<T>\<close> and its \<^verbatim>\<open>equals\<close> and
  \<^verbatim>\<open>equal_to\<close> (\<^verbatim>\<open>handles.h\<close> is missing). A handle is the reference it
  holds, and two handles are equal when they are the same reference.\<close>

datatype Handle = Handle (location: nat)

definition Handle_equals :: "Handle \<Rightarrow> Handle \<Rightarrow> bool" where
  "Handle_equals a b = (location a = location b)"

text \<open>\<^verbatim>\<open>struct VirtualContext\<close>; \<^verbatim>\<open>unsigned int\<close> is a 32-bit word. The
  constructor ends in \<^verbatim>\<open>CHECK_GT(distance, 0)\<close>, which aborts the process when
  the comparison fails: that is the result \<open>Inl CheckFailed\<close>. The field
  \<^verbatim>\<open>context\<close> is \<open>context_handle\<close> here.\<close>

record VirtualContext =
  distance :: "32 word"
  context_handle :: Handle

datatype fatal = CheckFailed

definition VirtualContext_new :: "32 word \<Rightarrow> Handle \<Rightarrow> fatal + VirtualContext" where
  "VirtualContext_new distance_in context_in =
     (if 0 < distance_in then Inr \<lparr>distance = distance_in, context_handle = context_in\<rparr>
      else Inl CheckFailed)"

definition VirtualContext_operator_eq :: "VirtualContext \<Rightarrow> VirtualContext \<Rightarrow> bool" where
  "VirtualContext_operator_eq c other =
     (Handle_equals (context_handle c) (context_handle other) \<and> distance c = distance other)"

section \<open>Hints\<close>

text \<open>
  \<^verbatim>\<open>class Hints\<close> holds a pointer \<^verbatim>\<open>impl_\<close> to a \<^verbatim>\<open>HintsImpl\<close>,
  \<^verbatim>\<open>nullptr\<close> until something is added. The header declares the five mutators,
  \<^verbatim>\<open>EnsureAllocated\<close> and the constant \<^verbatim>\<open>kMaxHintsSize\<close>;
  \<^verbatim>\<open>struct HintsImpl\<close> and the bodies are not among the sources.

  The \<^verbatim>\<open>Zone*\<close> argument of a mutator names an arena, and is a number here. A
  \<^verbatim>\<open>FunctionalList<T>\<close> only ever reaches cells of its own element type, so the
  cells of the five categories are kept in five stores, one per element type.
  \<^verbatim>\<open>VirtualClosure\<close> and \<^verbatim>\<open>VirtualBoundFunction\<close> are declared and not
  defined in the header: they are the type parameters \<open>'c\<close> and \<open>'b\<close>, and their
  equality and hash functions are parameters. The \<^verbatim>\<open>JSHeapBroker*\<close> argument
  has no part in what the spec says of the mutators and is left out.
\<close>

definition kMaxHintsSize :: nat where
  "kMaxHintsSize = 50"

text \<open>Modelled from the spec: \<^verbatim>\<open>struct HintsImpl\<close>, which is missing: the "bundle
  of five typed persistent sets (constants, shapes, closures, bound functions, context
  records)", named as the accessors of the header are, and the arena the bundle was
  allocated in (\<open>impl_zone\<close>), which \<^verbatim>\<open>EnsureAllocated\<close> compares.\<close>

record HintsImpl =
  constants :: FunctionalSet
  maps :: FunctionalSet
  virtual_closures :: FunctionalSet
  virtual_contexts :: FunctionalSet
  virtual_bound_functions :: FunctionalSet
  impl_zone :: nat

record Hints =
  impl :: "HintsImpl option"

definition Hints_empty :: Hints where
  "Hints_empty = \<lparr>impl = None\<rparr>"

text \<open>The cells of the five element types.\<close>

record ('c, 'b) Cells =
  constants_cells :: "Handle Zone"
  maps_cells :: "Handle Zone"
  virtual_closures_cells :: "'c Zone"
  virtual_contexts_cells :: "VirtualContext Zone"
  virtual_bound_functions_cells :: "'b Zone"

definition empty_cells :: "('c, 'b) Cells" where
  "empty_cells =
     \<lparr>constants_cells = [], maps_cells = [], virtual_closures_cells = [],
      virtual_contexts_cells = [], virtual_bound_functions_cells = []\<rparr>"

text \<open>Modelled from the spec: \<^verbatim>\<open>Hints::EnsureAllocated(zone, check_zone_equality)\<close>,
  whose body is missing: "if already allocated, optionally asserts the existing allocation
  lives in the expected arena; if not allocated, allocates the backing state in the given
  arena", and with \<^verbatim>\<open>check_zone_equality = true\<close> it "fatally aborts if an
  already-allocated aggregate's backing arena does not match the expected arena". It
  returns the allocated state, or the abort.\<close>

definition EnsureAllocated :: "nat \<Rightarrow> bool \<Rightarrow> Hints \<Rightarrow> fatal + HintsImpl" where
  "EnsureAllocated zone_in check_zone_equality h =
     (case impl h of
        Some i \<Rightarrow>
          if check_zone_equality \<and> impl_zone i \<noteq> zone_in then Inl CheckFailed else Inr i
      | None \<Rightarrow>
          Inr \<lparr>constants = empty_set, maps = empty_set, virtual_closures = empty_set,
               virtual_contexts = empty_set, virtual_bound_functions = empty_set,
               impl_zone = zone_in\<rparr>)"

text \<open>Modelled from the spec: the part the five mutators share, "delegates to the
  corresponding category's Add, subject to the soft size cap -- once a category reaches
  the cap, further additions to that category are dropped rather than growing it".\<close>

definition Add_capped ::
  "('a \<Rightarrow> 'a \<Rightarrow> bool) \<Rightarrow> ('a \<Rightarrow> size_t) \<Rightarrow> 'a \<Rightarrow> 'a Zone \<Rightarrow> FunctionalSet
    \<Rightarrow> 'a Zone \<times> FunctionalSet" where
  "Add_capped equal_to hasher elem z s =
     (if kMaxHintsSize \<le> Size z s then (z, s) else Add equal_to hasher elem z s)"

text \<open>Modelled from the spec: the five mutators, whose bodies are missing: each "ensures
  allocation, then delegates to the corresponding category's Add, subject to the soft size
  cap". Of the five only \<^verbatim>\<open>AddMap\<close> is declared with the
  \<^verbatim>\<open>check_zone_equality\<close> argument; the others check. Constants and maps are
  compared by reference and context records by \<^verbatim>\<open>operator==\<close>.\<close>

definition AddConstant ::
  "(Handle \<Rightarrow> size_t) \<Rightarrow> Handle \<Rightarrow> nat \<Rightarrow> ('c, 'b) Cells \<Rightarrow> Hints
    \<Rightarrow> fatal + ('c, 'b) Cells \<times> Hints" where
  "AddConstant hasher constant zone_in m h =
     (case EnsureAllocated zone_in True h of
        Inl f \<Rightarrow> Inl f
      | Inr i \<Rightarrow>
          (case Add_capped Handle_equals hasher constant (constants_cells m) (constants i) of
             (z', s') \<Rightarrow>
               Inr (m\<lparr>constants_cells := z'\<rparr>, \<lparr>impl = Some (i\<lparr>constants := s'\<rparr>)\<rparr>)))"

definition AddMap ::
  "(Handle \<Rightarrow> size_t) \<Rightarrow> Handle \<Rightarrow> nat \<Rightarrow> bool \<Rightarrow> ('c, 'b) Cells \<Rightarrow> Hints
    \<Rightarrow> fatal + ('c, 'b) Cells \<times> Hints" where
  "AddMap hasher map_in zone_in check_zone_equality m h =
     (case EnsureAllocated zone_in check_zone_equality h of
        Inl f \<Rightarrow> Inl f
      | Inr i \<Rightarrow>
          (case Add_capped Handle_equals hasher map_in (maps_cells m) (maps i) of
             (z', s') \<Rightarrow>
               Inr (m\<lparr>maps_cells := z'\<rparr>, \<lparr>impl = Some (i\<lparr>maps := s'\<rparr>)\<rparr>)))"

definition AddVirtualClosure ::
  "('c \<Rightarrow> 'c \<Rightarrow> bool) \<Rightarrow> ('c \<Rightarrow> size_t) \<Rightarrow> 'c \<Rightarrow> nat \<Rightarrow> ('c, 'b) Cells \<Rightarrow> Hints
    \<Rightarrow> fatal + ('c, 'b) Cells \<times> Hints" where
  "AddVirtualClosure equal_to hasher virtual_closure zone_in m h =
     (case EnsureAllocated zone_in True h of
        Inl f \<Rightarrow> Inl f
      | Inr i \<Rightarrow>
          (case Add_capped equal_to hasher virtual_closure (virtual_closures_cells m)
                  (virtual_closures i) of
             (z', s') \<Rightarrow>
               Inr (m\<lparr>virtual_closures_cells := z'\<rparr>,
                    \<lparr>impl = Some (i\<lparr>virtual_closures := s'\<rparr>)\<rparr>)))"

definition AddVirtualContext ::
  "(VirtualContext \<Rightarrow> size_t) \<Rightarrow> VirtualContext \<Rightarrow> nat \<Rightarrow> ('c, 'b) Cells \<Rightarrow> Hints
    \<Rightarrow> fatal + ('c, 'b) Cells \<times> Hints" where
  "AddVirtualContext hasher virtual_context zone_in m h =
     (case EnsureAllocated zone_in True h of
        Inl f \<Rightarrow> Inl f
      | Inr i \<Rightarrow>
          (case Add_capped VirtualContext_operator_eq hasher virtual_context
                  (virtual_contexts_cells m) (virtual_contexts i) of
             (z', s') \<Rightarrow>
               Inr (m\<lparr>virtual_contexts_cells := z'\<rparr>,
                    \<lparr>impl = Some (i\<lparr>virtual_contexts := s'\<rparr>)\<rparr>)))"

definition AddVirtualBoundFunction ::
  "('b \<Rightarrow> 'b \<Rightarrow> bool) \<Rightarrow> ('b \<Rightarrow> size_t) \<Rightarrow> 'b \<Rightarrow> nat \<Rightarrow> ('c, 'b) Cells \<Rightarrow> Hints
    \<Rightarrow> fatal + ('c, 'b) Cells \<times> Hints" where
  "AddVirtualBoundFunction equal_to hasher bound_function zone_in m h =
     (case EnsureAllocated zone_in True h of
        Inl f \<Rightarrow> Inl f
      | Inr i \<Rightarrow>
          (case Add_capped equal_to hasher bound_function (virtual_bound_functions_cells m)
                  (virtual_bound_functions i) of
             (z', s') \<Rightarrow>
               Inr (m\<lparr>virtual_bound_functions_cells := z'\<rparr>,
                    \<lparr>impl = Some (i\<lparr>virtual_bound_functions := s'\<rparr>)\<rparr>)))"

text \<open>Modelled from the spec: the five inspection accessors of \<^verbatim>\<open>Hints\<close>, whose
  bodies are missing: "accessors returning the current value of each of the five category
  sets", which never allocate, so each is the empty set when nothing is allocated.\<close>

definition constants_of :: "Hints \<Rightarrow> FunctionalSet" where
  "constants_of h = (case impl h of None \<Rightarrow> empty_set | Some i \<Rightarrow> constants i)"

definition maps_of :: "Hints \<Rightarrow> FunctionalSet" where
  "maps_of h = (case impl h of None \<Rightarrow> empty_set | Some i \<Rightarrow> maps i)"

definition virtual_closures_of :: "Hints \<Rightarrow> FunctionalSet" where
  "virtual_closures_of h =
     (case impl h of None \<Rightarrow> empty_set | Some i \<Rightarrow> virtual_closures i)"

definition virtual_contexts_of :: "Hints \<Rightarrow> FunctionalSet" where
  "virtual_contexts_of h =
     (case impl h of None \<Rightarrow> empty_set | Some i \<Rightarrow> virtual_contexts i)"

definition virtual_bound_functions_of :: "Hints \<Rightarrow> FunctionalSet" where
  "virtual_bound_functions_of h =
     (case impl h of None \<Rightarrow> empty_set | Some i \<Rightarrow> virtual_bound_functions i)"

text \<open>The five category sets of hints, as the accessors show them.\<close>

definition categories ::
  "Hints \<Rightarrow> FunctionalSet \<times> FunctionalSet \<times> FunctionalSet \<times> FunctionalSet \<times> FunctionalSet"
  where
  "categories h =
     (constants_of h, maps_of h, virtual_closures_of h, virtual_contexts_of h,
      virtual_bound_functions_of h)"

text \<open>The check of \<^verbatim>\<open>EnsureAllocated\<close> passes: nothing is allocated yet, or the
  check is off, or the allocation lives in the given arena.\<close>

definition zone_ok :: "nat \<Rightarrow> bool \<Rightarrow> Hints \<Rightarrow> bool" where
  "zone_ok zone_in check_zone_equality h =
     (case impl h of
        None \<Rightarrow> True
      | Some i \<Rightarrow> \<not> (check_zone_equality \<and> impl_zone i \<noteq> zone_in))"

text \<open>Adding a list of constants to hints, first to last; an abort ends the run.\<close>

definition AddConstants ::
  "(Handle \<Rightarrow> size_t) \<Rightarrow> Handle list \<Rightarrow> nat \<Rightarrow> ('c, 'b) Cells \<times> Hints
    \<Rightarrow> fatal + ('c, 'b) Cells \<times> Hints" where
  "AddConstants hasher cs zone_in mh =
     foldl (\<lambda>r c. case r of Inl f \<Rightarrow> Inl f
                   | Inr (m, h) \<Rightarrow> AddConstant hasher c zone_in m h)
           (Inr mh) cs"

section \<open>Example inputs\<close>

text \<open>A hash function on numbers, and small programs the statements below are run on.\<close>

definition nat_hasher :: "nat \<Rightarrow> size_t" where
  "nat_hasher n = of_nat n"

definition two_orders :: "nat state" where
  "two_orders = run (=) nat_hasher [AddOp 0 1, AddOp 0 2, AddOp 1 2, AddOp 1 1]"

definition small_program :: "nat operation list" where
  "small_program = [AddOp 0 1, AddOp 0 1, AddOp 1 2, AddOp 1 4, UnionOp 0 1]"

definition one_and_two :: "nat state" where
  "one_and_two = run (=) nat_hasher [AddOp 0 1, AddOp 1 2, AddOp 1 4]"

definition handle_hasher :: "Handle \<Rightarrow> size_t" where
  "handle_hasher a = of_nat (location a)"

definition sixty_constants :: "Handle list" where
  "sixty_constants = map Handle [0..<60]"

definition twin_zone :: "nat Zone" where
  "twin_zone =
     [\<lparr>cell_top = 7, cell_rest = 0, cell_size = 1\<rparr>,
      \<lparr>cell_top = 7, cell_rest = 0, cell_size = 1\<rparr>]"

definition twin_a :: FunctionalSet where
  "twin_a = \<lparr>data = 1, hash = 7\<rparr>"

definition twin_b :: FunctionalSet where
  "twin_b = \<lparr>data = 2, hash = 0\<rparr>"

definition hints_in_zone_1 :: Hints where
  "hints_in_zone_1 =
     \<lparr>impl = Some \<lparr>constants = empty_set, maps = empty_set, virtual_closures = empty_set,
                   virtual_contexts = empty_set, virtual_bound_functions = empty_set,
                   impl_zone = 1\<rparr>\<rparr>"

section \<open>Cells, zones and iteration\<close>

lemma cell_older [simp]: "p \<noteq> Suc (length z) \<Longrightarrow> cell (c # z) p = cell z p"
  by simp

lemma cell_bound: "cell z p = Some c \<Longrightarrow> 0 < p \<and> p \<le> length z"
  by (induction z) (auto split: if_splits)

lemma cell_None: "length z < p \<Longrightarrow> cell z p = None"
  by (induction z) auto

lemma cell_null [simp]: "cell z 0 = None"
  by (induction z) auto

lemma elements_null [simp]: "elements z 0 = []"
  by (simp add: elements.simps)

lemma elements_older: "p \<le> length z \<Longrightarrow> elements (c # z) p = elements z p"
proof (induction p rule: less_induct)
  case (less p)
  show ?case
  proof (cases "cell z p")
    case None
    with less.prems show ?thesis by (simp add: elements.simps [of _ p])
  next
    case (Some d)
    show ?thesis
    proof (cases "cell_rest d < p")
      case True
      with less.prems have "elements (c # z) (cell_rest d) = elements z (cell_rest d)"
        by (intro less.IH) auto
      with Some True less.prems show ?thesis by (simp add: elements.simps [of _ p])
    next
      case False
      with Some less.prems show ?thesis by (simp add: elements.simps [of _ p])
    qed
  qed
qed

lemma list_Size_older: "p \<le> length z \<Longrightarrow> list_Size (c # z) p = list_Size z p"
  by (simp add: list_Size_def)

lemma elements_append: "p \<le> length z \<Longrightarrow> elements (zs @ z) p = elements z p"
  by (induction zs) (simp_all add: elements_older)

lemma list_Size_append: "p \<le> length z \<Longrightarrow> list_Size (zs @ z) p = list_Size z p"
  by (induction zs) (simp_all add: list_Size_older)

lemma wf_zone_rest: "wf_zone z \<Longrightarrow> cell z p = Some c \<Longrightarrow> cell_rest c < p"
  by (induction z) (auto split: if_splits)

lemma elements_newest:
  "cell_rest c \<le> length z \<Longrightarrow>
   elements (c # z) (Suc (length z)) = cell_top c # elements z (cell_rest c)"
  by (simp add: elements.simps [of _ "Suc (length z)"] elements_older)

lemma list_Size_length: "wf_zone z \<Longrightarrow> list_Size z p = length (elements z p)"
proof (induction z arbitrary: p)
  case Nil
  show ?case by (simp add: list_Size_def elements.simps [of _ p])
next
  case (Cons c z)
  show ?case
  proof (cases "p = Suc (length z)")
    case True
    with Cons show ?thesis by (simp add: elements_newest) (simp add: list_Size_def)
  next
    case False
    show ?thesis
    proof (cases "p \<le> length z")
      case True
      with Cons show ?thesis by (simp add: elements_older list_Size_older)
    next
      case False
      with \<open>p \<noteq> Suc (length z)\<close> have "cell (c # z) p = None"
        by (intro cell_None) simp
      then show ?thesis by (simp add: list_Size_def elements.simps [of _ p])
    qed
  qed
qed

section \<open>Add and the loop of Union\<close>

lemma Add_present:
  "member_eq equal_to (elements z (data s)) e \<Longrightarrow> Add equal_to hasher e z s = (z, s)"
  by (simp add: Add_def member_eq_def)

lemma Add_absent:
  "\<not> member_eq equal_to (elements z (data s)) e \<Longrightarrow>
   Add equal_to hasher e z s =
     (\<lparr>cell_top = e, cell_rest = data s, cell_size = Suc (list_Size z (data s))\<rparr> # z,
      \<lparr>data = Suc (length z), hash = hash s XOR hasher e\<rparr>)"
  by (simp add: Add_def member_eq_def PushFront_def)

lemma Add_extends:
  "Add equal_to hasher e z s = (z', s') \<Longrightarrow> \<exists>zs. z' = zs @ z"
  by (cases "member_eq equal_to (elements z (data s)) e")
     (auto simp: Add_present Add_absent)

lemma Add_wf:
  "wf_zone z \<Longrightarrow> data s \<le> length z \<Longrightarrow> Add equal_to hasher e z s = (z', s') \<Longrightarrow>
   wf_zone z' \<and> data s' \<le> length z'"
  by (cases "member_eq equal_to (elements z (data s)) e")
     (auto simp: Add_present Add_absent)

lemma Add_elements:
  "data s \<le> length z \<Longrightarrow> Add equal_to hasher e z s = (z', s') \<Longrightarrow>
   elements z' (data s') =
     (if member_eq equal_to (elements z (data s)) e then elements z (data s)
      else e # elements z (data s))"
  by (cases "member_eq equal_to (elements z (data s)) e")
     (auto simp: Add_present Add_absent elements_newest)

lemma Add_all_extends:
  "Add_all equal_to hasher es z s = (z', s') \<Longrightarrow> \<exists>zs. z' = zs @ z"
proof (induction es arbitrary: z s)
  case Nil
  then show ?case by simp
next
  case (Cons e es)
  obtain z1 s1 where a: "Add equal_to hasher e z s = (z1, s1)" by force
  with Cons.prems have "Add_all equal_to hasher es z1 s1 = (z', s')" by simp
  then obtain zs where "z' = zs @ z1" using Cons.IH by blast
  moreover obtain zs1 where "z1 = zs1 @ z" using Add_extends [OF a] by blast
  ultimately have "z' = (zs @ zs1) @ z" by simp
  then show ?case by blast
qed

lemma Add_all_wf:
  "wf_zone z \<Longrightarrow> data s \<le> length z \<Longrightarrow> Add_all equal_to hasher es z s = (z', s') \<Longrightarrow>
   wf_zone z' \<and> data s' \<le> length z'"
proof (induction es arbitrary: z s)
  case Nil
  then show ?case by simp
next
  case (Cons e es)
  obtain z1 s1 where a: "Add equal_to hasher e z s = (z1, s1)" by force
  with Cons.prems have r: "Add_all equal_to hasher es z1 s1 = (z', s')" by simp
  from Add_wf [OF Cons.prems(1,2) a] have "wf_zone z1" "data s1 \<le> length z1" by simp_all
  then show ?case using Cons.IH r by blast
qed

lemma Add_all_elements:
  "data s \<le> length z \<Longrightarrow> wf_zone z \<Longrightarrow> Add_all equal_to hasher es z s = (z', s') \<Longrightarrow>
   elements z' (data s') = added equal_to es (elements z (data s))"
proof (induction es arbitrary: z s)
  case Nil
  then show ?case by simp
next
  case (Cons e es)
  obtain z1 s1 where a: "Add equal_to hasher e z s = (z1, s1)" by force
  with Cons.prems have r: "Add_all equal_to hasher es z1 s1 = (z', s')" by simp
  from Add_wf [OF Cons.prems(2,1) a] have w: "wf_zone z1" "data s1 \<le> length z1" by simp_all
  have "elements z' (data s') = added equal_to es (elements z1 (data s1))"
    using Cons.IH [OF w(2) w(1) r] .
  then show ?case using Add_elements [OF Cons.prems(1) a] by simp
qed

lemma added_tail: "\<exists>pre. added equal_to es xs = pre @ xs \<and> set pre \<subseteq> set es"
proof (induction es arbitrary: xs)
  case Nil
  show ?case by simp
next
  case (Cons e es)
  let ?ys = "if member_eq equal_to xs e then xs else e # xs"
  obtain pre where p: "added equal_to es ?ys = pre @ ?ys" "set pre \<subseteq> set es"
    using Cons.IH by blast
  show ?case
  proof (cases "member_eq equal_to xs e")
    case True
    with p show ?thesis by auto
  next
    case False
    with p have "added equal_to (e # es) xs = (pre @ [e]) @ xs \<and> set (pre @ [e]) \<subseteq> set (e # es)"
      by auto
    then show ?thesis by blast
  qed
qed

lemma member_eq_iff: "member_eq equal_to xs e \<longleftrightarrow> (\<exists>l\<in>set xs. equal_to l e)"
  by (simp add: member_eq_def list_ex_iff)

lemma added_member:
  "transp equal_to \<Longrightarrow>
   member_eq equal_to (added equal_to es xs) x \<longleftrightarrow>
     member_eq equal_to xs x \<or> member_eq equal_to es x"
proof (induction es arbitrary: xs)
  case Nil
  show ?case by (simp add: member_eq_iff)
next
  case (Cons e es)
  show ?case
  proof (cases "member_eq equal_to xs e")
    case True
    then obtain l where l: "l \<in> set xs" "equal_to l e" by (auto simp: member_eq_iff)
    have "equal_to e x \<Longrightarrow> member_eq equal_to xs x"
      using l Cons.prems by (auto simp: member_eq_iff dest: transpD)
    with True Cons show ?thesis by (auto simp: member_eq_iff)
  next
    case False
    with Cons show ?thesis by (auto simp: member_eq_iff)
  qed
qed

lemma added_sorted:
  "sorted_wrt (\<lambda>a b. \<not> equal_to b a) xs \<Longrightarrow>
   sorted_wrt (\<lambda>a b. \<not> equal_to b a) (added equal_to es xs)"
  by (induction es arbitrary: xs) (auto simp: member_eq_iff)

lemma Union_loop_Add_all:
  "wf_zone z \<Longrightarrow> data s \<le> length z \<Longrightarrow>
   Union_loop equal_to hasher it z s = Add_all equal_to hasher (elements z it) z s"
proof (induction it arbitrary: z s rule: less_induct)
  case (less it)
  show ?case
  proof (cases "cell z it")
    case None
    then show ?thesis by (simp add: Union_loop.simps [of _ _ it] elements.simps [of _ it])
  next
    case (Some c)
    obtain z1 s1 where a: "Add equal_to hasher (cell_top c) z s = (z1, s1)" by force
    have lt: "cell_rest c < it" using wf_zone_rest [OF less.prems(1) Some] .
    have le: "cell_rest c \<le> length z" using lt cell_bound [OF Some] by simp
    from Add_wf [OF less.prems a] have w: "wf_zone z1" "data s1 \<le> length z1" by simp_all
    obtain zs where zs: "z1 = zs @ z" using Add_extends [OF a] by blast
    have "Union_loop equal_to hasher (cell_rest c) z1 s1 =
          Add_all equal_to hasher (elements z1 (cell_rest c)) z1 s1"
      using less.IH [OF lt w] .
    also have "elements z1 (cell_rest c) = elements z (cell_rest c)"
      using le by (simp add: zs elements_append)
    finally show ?thesis
      using Some a lt by (simp add: Union_loop.simps [of _ _ it] elements.simps [of _ it])
  qed
qed

section \<open>The invariant of programs\<close>

lemma Union_set_Add_all:
  assumes "wf_zone z" "data s \<le> length z" "data other \<le> length z"
  shows "Union_set equal_to hasher other z s =
     (if data s = data other then (z, s)
      else if list_Size z (data s) < list_Size z (data other)
           then Add_all equal_to hasher (elements z (data s)) z (s\<lparr>data := data other\<rparr>)
           else Add_all equal_to hasher (elements z (data other)) z s)"
  using assms by (simp add: Union_set_def TriviallyEquals_def Union_loop_Add_all)

lemma Union_set_extends:
  assumes "wf_zone z" "data s \<le> length z" "data other \<le> length z"
    and "Union_set equal_to hasher other z s = (z', s')"
  shows "\<exists>zs. z' = zs @ z"
  using assms(4) Add_all_extends [of equal_to hasher _ z _ z' s']
  by (auto simp: Union_set_Add_all [OF assms(1-3)] split: if_splits)

lemma Union_set_wf:
  assumes "wf_zone z" "data s \<le> length z" "data other \<le> length z"
    and "Union_set equal_to hasher other z s = (z', s')"
  shows "wf_zone z' \<and> data s' \<le> length z'"
proof (cases "data s = data other")
  case True
  with assms show ?thesis by (simp add: Union_set_Add_all)
next
  case False
  show ?thesis
  proof (cases "list_Size z (data s) < list_Size z (data other)")
    case True
    with False assms(4)
    have "Add_all equal_to hasher (elements z (data s)) z (s\<lparr>data := data other\<rparr>) = (z', s')"
      by (simp add: Union_set_Add_all [OF assms(1-3)])
    then show ?thesis using Add_all_wf [of z "s\<lparr>data := data other\<rparr>"] assms by simp
  next
    case F2: False
    with False assms(4)
    have "Add_all equal_to hasher (elements z (data other)) z s = (z', s')"
      by (simp add: Union_set_Add_all [OF assms(1-3)])
    then show ?thesis using Add_all_wf [of z s] assms by simp
  qed
qed

lemma Union_set_elements:
  assumes "wf_zone z" "data s \<le> length z" "data other \<le> length z"
    and "Union_set equal_to hasher other z s = (z', s')"
  shows "elements z' (data s') =
     (if data s = data other then elements z (data s)
      else if list_Size z (data s) < list_Size z (data other)
           then added equal_to (elements z (data s)) (elements z (data other))
           else added equal_to (elements z (data other)) (elements z (data s)))"
proof (cases "data s = data other")
  case True
  with assms show ?thesis by (simp add: Union_set_Add_all)
next
  case False
  show ?thesis
  proof (cases "list_Size z (data s) < list_Size z (data other)")
    case True
    with False assms(4)
    have "Add_all equal_to hasher (elements z (data s)) z (s\<lparr>data := data other\<rparr>) = (z', s')"
      by (simp add: Union_set_Add_all [OF assms(1-3)])
    then show ?thesis
      using Add_all_elements [of "s\<lparr>data := data other\<rparr>" z] assms True False by simp
  next
    case F2: False
    with False assms(4)
    have "Add_all equal_to hasher (elements z (data other)) z s = (z', s')"
      by (simp add: Union_set_Add_all [OF assms(1-3)])
    then show ?thesis using Add_all_elements [of s z] assms False F2 by simp
  qed
qed

lemma inv_initial: "inv_state equal_to initial"
  by (simp add: inv_state_def initial_def elems_def empty_set_def)

lemma inv_update:
  assumes inv: "inv_state equal_to st"
    and ext: "z' = zs @ zone st"
    and wf: "wf_zone z'" "data s' \<le> length z'"
    and srt: "sorted_wrt (\<lambda>a b. \<not> equal_to b a) (elements z' (data s'))"
  shows "inv_state equal_to \<lparr>zone = z', vars = (vars st)(i := s')\<rparr>"
proof -
  have old: "elements z' (data (vars st k)) = elements (zone st) (data (vars st k))" for k
    using inv by (simp add: ext inv_state_def elements_append)
  have len: "data (vars st k) \<le> length z'" for k
    using inv by (simp add: ext inv_state_def trans_le_add2)
  show ?thesis
    using inv wf srt old len by (simp add: inv_state_def elems_def)
qed

lemma inv_step:
  assumes inv: "inv_state equal_to st"
  shows "inv_state equal_to (step equal_to hasher st op)"
proof (cases op)
  case (AddOp i e)
  obtain z' s' where a: "Add equal_to hasher e (zone st) (vars st i) = (z', s')" by force
  have p: "wf_zone (zone st)" "data (vars st i) \<le> length (zone st)"
    "sorted_wrt (\<lambda>a b. \<not> equal_to b a) (elements (zone st) (data (vars st i)))"
    using inv by (simp_all add: inv_state_def elems_def)
  obtain zs where zs: "z' = zs @ zone st" using Add_extends [OF a] by blast
  have w: "wf_zone z'" "data s' \<le> length z'" using Add_wf [OF p(1,2) a] by simp_all
  have "sorted_wrt (\<lambda>a b. \<not> equal_to b a) (elements z' (data s'))"
    using p(3) by (auto simp: Add_elements [OF p(2) a] member_eq_iff)
  from inv_update [OF inv zs w this] show ?thesis using AddOp a by simp
next
  case (UnionOp i j)
  obtain z' s' where
    u: "Union_set equal_to hasher (vars st j) (zone st) (vars st i) = (z', s')" by force
  have p: "wf_zone (zone st)" "data (vars st i) \<le> length (zone st)"
    "data (vars st j) \<le> length (zone st)"
    using inv by (simp_all add: inv_state_def)
  have q: "sorted_wrt (\<lambda>a b. \<not> equal_to b a) (elements (zone st) (data (vars st k)))" for k
    using inv by (simp add: inv_state_def elems_def)
  obtain zs where zs: "z' = zs @ zone st" using Union_set_extends [OF p u] by blast
  have w: "wf_zone z'" "data s' \<le> length z'" using Union_set_wf [OF p u] by simp_all
  have "sorted_wrt (\<lambda>a b. \<not> equal_to b a) (elements z' (data s'))"
    using q by (simp add: Union_set_elements [OF p u] added_sorted)
  from inv_update [OF inv zs w this] show ?thesis using UnionOp u by simp
qed

lemma inv_foldl:
  "inv_state equal_to st \<Longrightarrow> inv_state equal_to (foldl (step equal_to hasher) st ops)"
  by (induction ops arbitrary: st) (simp_all add: inv_step)

lemma inv_run: "inv_state equal_to (run equal_to hasher ops)"
  by (simp add: run_def inv_foldl inv_initial)

lemma no_duplicates_iff:
  "no_duplicates equal_to xs \<longleftrightarrow>
     (\<forall>i<length xs. \<forall>j<length xs. i \<noteq> j \<longrightarrow> \<not> equal_to (xs ! i) (xs ! j))"
  unfolding no_duplicates_def list_all_iff by (simp add: Ball_def) blast

lemma sorted_no_duplicates:
  assumes "symp equal_to" "sorted_wrt (\<lambda>a b. \<not> equal_to b a) xs"
  shows "no_duplicates equal_to xs"
  unfolding no_duplicates_iff
proof (intro allI impI)
  fix i j assume ij: "i < length xs" "j < length xs" "i \<noteq> j"
  show "\<not> equal_to (xs ! i) (xs ! j)"
  proof (cases "i < j")
    case True
    with assms(2) ij have "\<not> equal_to (xs ! j) (xs ! i)" by (simp add: sorted_wrt_iff_nth_less)
    with assms(1) show ?thesis by (auto dest: sympD)
  next
    case False
    with ij have "j < i" by simp
    with assms(2) ij show ?thesis by (simp add: sorted_wrt_iff_nth_less)
  qed
qed

lemma no_duplicates_sorted:
  "no_duplicates equal_to xs \<Longrightarrow> sorted_wrt (\<lambda>a b. \<not> equal_to b a) xs"
  by (simp add: no_duplicates_iff sorted_wrt_iff_nth_less)

lemma Includes_iff:
  "Includes equal_to z a b \<longleftrightarrow>
     (\<forall>y\<in>set (elements z (data b)). \<exists>x\<in>set (elements z (data a)). equal_to x y)"
  by (simp add: Includes_def list_all_iff list_ex_iff)

section \<open>Adding to hints\<close>

lemma Add_capped_full:
  "kMaxHintsSize \<le> Size z s \<Longrightarrow> Add_capped equal_to hasher e z s = (z, s)"
  by (simp add: Add_capped_def)

lemma Add_capped_room:
  "\<not> kMaxHintsSize \<le> Size z s \<Longrightarrow>
   Add_capped equal_to hasher e z s = Add equal_to hasher e z s"
  by (simp add: Add_capped_def)

lemma Add_Size:
  "Add equal_to hasher e z s = (z', s') \<Longrightarrow> Size z' s' \<le> Suc (Size z s)"
  by (cases "member_eq equal_to (elements z (data s)) e")
     (auto simp: Add_present Add_absent Size_def list_Size_def)

lemma Add_capped_bound:
  assumes "Size z s \<le> kMaxHintsSize" "Add_capped equal_to hasher e z s = (z', s')"
  shows "Size z' s' \<le> kMaxHintsSize"
proof (cases "kMaxHintsSize \<le> Size z s")
  case True
  with assms show ?thesis by (simp add: Add_capped_full)
next
  case False
  with assms(2) have "Add equal_to hasher e z s = (z', s')" by (simp add: Add_capped_room)
  from Add_Size [OF this] False show ?thesis by simp
qed

lemma EnsureAllocated_fatal:
  "\<not> zone_ok zone_in chk h \<Longrightarrow> EnsureAllocated zone_in chk h = Inl CheckFailed"
  by (auto simp: zone_ok_def EnsureAllocated_def split: option.splits)

lemma EnsureAllocated_ok:
  assumes "zone_ok zone_in chk h"
  shows "\<exists>i. EnsureAllocated zone_in chk h = Inr i \<and>
             constants i = constants_of h \<and> maps i = maps_of h \<and>
             virtual_closures i = virtual_closures_of h \<and>
             virtual_contexts i = virtual_contexts_of h \<and>
             virtual_bound_functions i = virtual_bound_functions_of h \<and>
             (chk \<longrightarrow> impl_zone i = zone_in)"
  using assms
  by (auto simp: zone_ok_def EnsureAllocated_def constants_of_def maps_of_def
        virtual_closures_of_def virtual_contexts_of_def virtual_bound_functions_of_def
        split: option.splits)

lemma AddConstant_cap:
  "(\<not> zone_ok zone_in True h \<longrightarrow> AddConstant hasher c zone_in m h = Inl CheckFailed) \<and>
   (zone_ok zone_in True h \<and> kMaxHintsSize \<le> Size (constants_cells m) (constants_of h) \<longrightarrow>
      (\<exists>h'. AddConstant hasher c zone_in m h = Inr (m, h') \<and> categories h' = categories h)) \<and>
   (zone_ok zone_in True h \<and> \<not> kMaxHintsSize \<le> Size (constants_cells m) (constants_of h) \<longrightarrow>
      (case Add Handle_equals hasher c (constants_cells m) (constants_of h) of
         (z', s') \<Rightarrow>
           \<exists>h'. AddConstant hasher c zone_in m h = Inr (m\<lparr>constants_cells := z'\<rparr>, h') \<and> constants_of h' = s')) \<and>
   (zone_ok zone_in True h \<and> Size (constants_cells m) (constants_of h) \<le> kMaxHintsSize \<longrightarrow>
      (\<exists>m' h'. AddConstant hasher c zone_in m h = Inr (m', h') \<and> Size (constants_cells m') (constants_of h') \<le> kMaxHintsSize))"
proof (cases "zone_ok zone_in True h")
  case False
  then show ?thesis by (simp add: AddConstant_def EnsureAllocated_fatal)
next
  case True
  from EnsureAllocated_ok [OF True] obtain i where
    i: "EnsureAllocated zone_in True h = Inr i" "constants i = constants_of h"
      "maps i = maps_of h" "virtual_closures i = virtual_closures_of h"
      "virtual_contexts i = virtual_contexts_of h"
      "virtual_bound_functions i = virtual_bound_functions_of h"
    by blast
  obtain z' s' where
    a: "Add_capped Handle_equals hasher c (constants_cells m) (constants_of h) = (z', s')"
    by force
  have r: "AddConstant hasher c zone_in m h = Inr (m\<lparr>constants_cells := z'\<rparr>, \<lparr>impl = Some (i\<lparr>constants := s'\<rparr>)\<rparr>)"
    using i a by (simp add: AddConstant_def)
  have full: "kMaxHintsSize \<le> Size (constants_cells m) (constants_of h) \<Longrightarrow>
      AddConstant hasher c zone_in m h = Inr (m, \<lparr>impl = Some i\<rparr>) \<and>
      categories \<lparr>impl = Some i\<rparr> = categories h"
    using r a i
    by (simp add: Add_capped_full categories_def constants_of_def maps_of_def
          virtual_closures_of_def virtual_contexts_of_def virtual_bound_functions_of_def)
  have room: "\<not> kMaxHintsSize \<le> Size (constants_cells m) (constants_of h) \<Longrightarrow>
      Add Handle_equals hasher c (constants_cells m) (constants_of h) = (z', s')"
    using a by (simp add: Add_capped_room)
  have bound: "Size (constants_cells m) (constants_of h) \<le> kMaxHintsSize \<Longrightarrow>
      Size (constants_cells (m\<lparr>constants_cells := z'\<rparr>))
        (constants_of \<lparr>impl = Some (i\<lparr>constants := s'\<rparr>)\<rparr>) \<le> kMaxHintsSize"
    using Add_capped_bound [OF _ a] by (simp add: constants_of_def)
  show ?thesis
    using True full room bound r by (auto simp: constants_of_def)
qed

lemma AddMap_cap:
  "(\<not> zone_ok zone_in chk h \<longrightarrow> AddMap hasher c zone_in chk m h = Inl CheckFailed) \<and>
   (zone_ok zone_in chk h \<and> kMaxHintsSize \<le> Size (maps_cells m) (maps_of h) \<longrightarrow>
      (\<exists>h'. AddMap hasher c zone_in chk m h = Inr (m, h') \<and> categories h' = categories h)) \<and>
   (zone_ok zone_in chk h \<and> \<not> kMaxHintsSize \<le> Size (maps_cells m) (maps_of h) \<longrightarrow>
      (case Add Handle_equals hasher c (maps_cells m) (maps_of h) of
         (z', s') \<Rightarrow>
           \<exists>h'. AddMap hasher c zone_in chk m h = Inr (m\<lparr>maps_cells := z'\<rparr>, h') \<and> maps_of h' = s')) \<and>
   (zone_ok zone_in chk h \<and> Size (maps_cells m) (maps_of h) \<le> kMaxHintsSize \<longrightarrow>
      (\<exists>m' h'. AddMap hasher c zone_in chk m h = Inr (m', h') \<and> Size (maps_cells m') (maps_of h') \<le> kMaxHintsSize))"
proof (cases "zone_ok zone_in chk h")
  case False
  then show ?thesis by (simp add: AddMap_def EnsureAllocated_fatal)
next
  case True
  from EnsureAllocated_ok [OF True] obtain i where
    i: "EnsureAllocated zone_in chk h = Inr i" "constants i = constants_of h"
      "maps i = maps_of h" "virtual_closures i = virtual_closures_of h"
      "virtual_contexts i = virtual_contexts_of h"
      "virtual_bound_functions i = virtual_bound_functions_of h"
    by blast
  obtain z' s' where
    a: "Add_capped Handle_equals hasher c (maps_cells m) (maps_of h) = (z', s')"
    by force
  have r: "AddMap hasher c zone_in chk m h = Inr (m\<lparr>maps_cells := z'\<rparr>, \<lparr>impl = Some (i\<lparr>maps := s'\<rparr>)\<rparr>)"
    using i a by (simp add: AddMap_def)
  have full: "kMaxHintsSize \<le> Size (maps_cells m) (maps_of h) \<Longrightarrow>
      AddMap hasher c zone_in chk m h = Inr (m, \<lparr>impl = Some i\<rparr>) \<and>
      categories \<lparr>impl = Some i\<rparr> = categories h"
    using r a i
    by (simp add: Add_capped_full categories_def constants_of_def maps_of_def
          virtual_closures_of_def virtual_contexts_of_def virtual_bound_functions_of_def)
  have room: "\<not> kMaxHintsSize \<le> Size (maps_cells m) (maps_of h) \<Longrightarrow>
      Add Handle_equals hasher c (maps_cells m) (maps_of h) = (z', s')"
    using a by (simp add: Add_capped_room)
  have bound: "Size (maps_cells m) (maps_of h) \<le> kMaxHintsSize \<Longrightarrow>
      Size (maps_cells (m\<lparr>maps_cells := z'\<rparr>))
        (maps_of \<lparr>impl = Some (i\<lparr>maps := s'\<rparr>)\<rparr>) \<le> kMaxHintsSize"
    using Add_capped_bound [OF _ a] by (simp add: maps_of_def)
  show ?thesis
    using True full room bound r by (auto simp: maps_of_def)
qed

lemma AddVirtualClosure_cap:
  "(\<not> zone_ok zone_in True h \<longrightarrow> AddVirtualClosure equal_to hasher c zone_in m h = Inl CheckFailed) \<and>
   (zone_ok zone_in True h \<and> kMaxHintsSize \<le> Size (virtual_closures_cells m) (virtual_closures_of h) \<longrightarrow>
      (\<exists>h'. AddVirtualClosure equal_to hasher c zone_in m h = Inr (m, h') \<and> categories h' = categories h)) \<and>
   (zone_ok zone_in True h \<and> \<not> kMaxHintsSize \<le> Size (virtual_closures_cells m) (virtual_closures_of h) \<longrightarrow>
      (case Add equal_to hasher c (virtual_closures_cells m) (virtual_closures_of h) of
         (z', s') \<Rightarrow>
           \<exists>h'. AddVirtualClosure equal_to hasher c zone_in m h = Inr (m\<lparr>virtual_closures_cells := z'\<rparr>, h') \<and> virtual_closures_of h' = s')) \<and>
   (zone_ok zone_in True h \<and> Size (virtual_closures_cells m) (virtual_closures_of h) \<le> kMaxHintsSize \<longrightarrow>
      (\<exists>m' h'. AddVirtualClosure equal_to hasher c zone_in m h = Inr (m', h') \<and> Size (virtual_closures_cells m') (virtual_closures_of h') \<le> kMaxHintsSize))"
proof (cases "zone_ok zone_in True h")
  case False
  then show ?thesis by (simp add: AddVirtualClosure_def EnsureAllocated_fatal)
next
  case True
  from EnsureAllocated_ok [OF True] obtain i where
    i: "EnsureAllocated zone_in True h = Inr i" "constants i = constants_of h"
      "maps i = maps_of h" "virtual_closures i = virtual_closures_of h"
      "virtual_contexts i = virtual_contexts_of h"
      "virtual_bound_functions i = virtual_bound_functions_of h"
    by blast
  obtain z' s' where
    a: "Add_capped equal_to hasher c (virtual_closures_cells m) (virtual_closures_of h) = (z', s')"
    by force
  have r: "AddVirtualClosure equal_to hasher c zone_in m h = Inr (m\<lparr>virtual_closures_cells := z'\<rparr>, \<lparr>impl = Some (i\<lparr>virtual_closures := s'\<rparr>)\<rparr>)"
    using i a by (simp add: AddVirtualClosure_def)
  have full: "kMaxHintsSize \<le> Size (virtual_closures_cells m) (virtual_closures_of h) \<Longrightarrow>
      AddVirtualClosure equal_to hasher c zone_in m h = Inr (m, \<lparr>impl = Some i\<rparr>) \<and>
      categories \<lparr>impl = Some i\<rparr> = categories h"
    using r a i
    by (simp add: Add_capped_full categories_def constants_of_def maps_of_def
          virtual_closures_of_def virtual_contexts_of_def virtual_bound_functions_of_def)
  have room: "\<not> kMaxHintsSize \<le> Size (virtual_closures_cells m) (virtual_closures_of h) \<Longrightarrow>
      Add equal_to hasher c (virtual_closures_cells m) (virtual_closures_of h) = (z', s')"
    using a by (simp add: Add_capped_room)
  have bound: "Size (virtual_closures_cells m) (virtual_closures_of h) \<le> kMaxHintsSize \<Longrightarrow>
      Size (virtual_closures_cells (m\<lparr>virtual_closures_cells := z'\<rparr>))
        (virtual_closures_of \<lparr>impl = Some (i\<lparr>virtual_closures := s'\<rparr>)\<rparr>) \<le> kMaxHintsSize"
    using Add_capped_bound [OF _ a] by (simp add: virtual_closures_of_def)
  show ?thesis
    using True full room bound r by (auto simp: virtual_closures_of_def)
qed

lemma AddVirtualContext_cap:
  "(\<not> zone_ok zone_in True h \<longrightarrow> AddVirtualContext hasher c zone_in m h = Inl CheckFailed) \<and>
   (zone_ok zone_in True h \<and> kMaxHintsSize \<le> Size (virtual_contexts_cells m) (virtual_contexts_of h) \<longrightarrow>
      (\<exists>h'. AddVirtualContext hasher c zone_in m h = Inr (m, h') \<and> categories h' = categories h)) \<and>
   (zone_ok zone_in True h \<and> \<not> kMaxHintsSize \<le> Size (virtual_contexts_cells m) (virtual_contexts_of h) \<longrightarrow>
      (case Add VirtualContext_operator_eq hasher c (virtual_contexts_cells m) (virtual_contexts_of h) of
         (z', s') \<Rightarrow>
           \<exists>h'. AddVirtualContext hasher c zone_in m h = Inr (m\<lparr>virtual_contexts_cells := z'\<rparr>, h') \<and> virtual_contexts_of h' = s')) \<and>
   (zone_ok zone_in True h \<and> Size (virtual_contexts_cells m) (virtual_contexts_of h) \<le> kMaxHintsSize \<longrightarrow>
      (\<exists>m' h'. AddVirtualContext hasher c zone_in m h = Inr (m', h') \<and> Size (virtual_contexts_cells m') (virtual_contexts_of h') \<le> kMaxHintsSize))"
proof (cases "zone_ok zone_in True h")
  case False
  then show ?thesis by (simp add: AddVirtualContext_def EnsureAllocated_fatal)
next
  case True
  from EnsureAllocated_ok [OF True] obtain i where
    i: "EnsureAllocated zone_in True h = Inr i" "constants i = constants_of h"
      "maps i = maps_of h" "virtual_closures i = virtual_closures_of h"
      "virtual_contexts i = virtual_contexts_of h"
      "virtual_bound_functions i = virtual_bound_functions_of h"
    by blast
  obtain z' s' where
    a: "Add_capped VirtualContext_operator_eq hasher c (virtual_contexts_cells m) (virtual_contexts_of h) = (z', s')"
    by force
  have r: "AddVirtualContext hasher c zone_in m h = Inr (m\<lparr>virtual_contexts_cells := z'\<rparr>, \<lparr>impl = Some (i\<lparr>virtual_contexts := s'\<rparr>)\<rparr>)"
    using i a by (simp add: AddVirtualContext_def)
  have full: "kMaxHintsSize \<le> Size (virtual_contexts_cells m) (virtual_contexts_of h) \<Longrightarrow>
      AddVirtualContext hasher c zone_in m h = Inr (m, \<lparr>impl = Some i\<rparr>) \<and>
      categories \<lparr>impl = Some i\<rparr> = categories h"
    using r a i
    by (simp add: Add_capped_full categories_def constants_of_def maps_of_def
          virtual_closures_of_def virtual_contexts_of_def virtual_bound_functions_of_def)
  have room: "\<not> kMaxHintsSize \<le> Size (virtual_contexts_cells m) (virtual_contexts_of h) \<Longrightarrow>
      Add VirtualContext_operator_eq hasher c (virtual_contexts_cells m) (virtual_contexts_of h) = (z', s')"
    using a by (simp add: Add_capped_room)
  have bound: "Size (virtual_contexts_cells m) (virtual_contexts_of h) \<le> kMaxHintsSize \<Longrightarrow>
      Size (virtual_contexts_cells (m\<lparr>virtual_contexts_cells := z'\<rparr>))
        (virtual_contexts_of \<lparr>impl = Some (i\<lparr>virtual_contexts := s'\<rparr>)\<rparr>) \<le> kMaxHintsSize"
    using Add_capped_bound [OF _ a] by (simp add: virtual_contexts_of_def)
  show ?thesis
    using True full room bound r by (auto simp: virtual_contexts_of_def)
qed

lemma AddVirtualBoundFunction_cap:
  "(\<not> zone_ok zone_in True h \<longrightarrow> AddVirtualBoundFunction equal_to hasher c zone_in m h = Inl CheckFailed) \<and>
   (zone_ok zone_in True h \<and> kMaxHintsSize \<le> Size (virtual_bound_functions_cells m) (virtual_bound_functions_of h) \<longrightarrow>
      (\<exists>h'. AddVirtualBoundFunction equal_to hasher c zone_in m h = Inr (m, h') \<and> categories h' = categories h)) \<and>
   (zone_ok zone_in True h \<and> \<not> kMaxHintsSize \<le> Size (virtual_bound_functions_cells m) (virtual_bound_functions_of h) \<longrightarrow>
      (case Add equal_to hasher c (virtual_bound_functions_cells m) (virtual_bound_functions_of h) of
         (z', s') \<Rightarrow>
           \<exists>h'. AddVirtualBoundFunction equal_to hasher c zone_in m h = Inr (m\<lparr>virtual_bound_functions_cells := z'\<rparr>, h') \<and> virtual_bound_functions_of h' = s')) \<and>
   (zone_ok zone_in True h \<and> Size (virtual_bound_functions_cells m) (virtual_bound_functions_of h) \<le> kMaxHintsSize \<longrightarrow>
      (\<exists>m' h'. AddVirtualBoundFunction equal_to hasher c zone_in m h = Inr (m', h') \<and> Size (virtual_bound_functions_cells m') (virtual_bound_functions_of h') \<le> kMaxHintsSize))"
proof (cases "zone_ok zone_in True h")
  case False
  then show ?thesis by (simp add: AddVirtualBoundFunction_def EnsureAllocated_fatal)
next
  case True
  from EnsureAllocated_ok [OF True] obtain i where
    i: "EnsureAllocated zone_in True h = Inr i" "constants i = constants_of h"
      "maps i = maps_of h" "virtual_closures i = virtual_closures_of h"
      "virtual_contexts i = virtual_contexts_of h"
      "virtual_bound_functions i = virtual_bound_functions_of h"
    by blast
  obtain z' s' where
    a: "Add_capped equal_to hasher c (virtual_bound_functions_cells m) (virtual_bound_functions_of h) = (z', s')"
    by force
  have r: "AddVirtualBoundFunction equal_to hasher c zone_in m h = Inr (m\<lparr>virtual_bound_functions_cells := z'\<rparr>, \<lparr>impl = Some (i\<lparr>virtual_bound_functions := s'\<rparr>)\<rparr>)"
    using i a by (simp add: AddVirtualBoundFunction_def)
  have full: "kMaxHintsSize \<le> Size (virtual_bound_functions_cells m) (virtual_bound_functions_of h) \<Longrightarrow>
      AddVirtualBoundFunction equal_to hasher c zone_in m h = Inr (m, \<lparr>impl = Some i\<rparr>) \<and>
      categories \<lparr>impl = Some i\<rparr> = categories h"
    using r a i
    by (simp add: Add_capped_full categories_def constants_of_def maps_of_def
          virtual_closures_of_def virtual_contexts_of_def virtual_bound_functions_of_def)
  have room: "\<not> kMaxHintsSize \<le> Size (virtual_bound_functions_cells m) (virtual_bound_functions_of h) \<Longrightarrow>
      Add equal_to hasher c (virtual_bound_functions_cells m) (virtual_bound_functions_of h) = (z', s')"
    using a by (simp add: Add_capped_room)
  have bound: "Size (virtual_bound_functions_cells m) (virtual_bound_functions_of h) \<le> kMaxHintsSize \<Longrightarrow>
      Size (virtual_bound_functions_cells (m\<lparr>virtual_bound_functions_cells := z'\<rparr>))
        (virtual_bound_functions_of \<lparr>impl = Some (i\<lparr>virtual_bound_functions := s'\<rparr>)\<rparr>) \<le> kMaxHintsSize"
    using Add_capped_bound [OF _ a] by (simp add: virtual_bound_functions_of_def)
  show ?thesis
    using True full room bound r by (auto simp: virtual_bound_functions_of_def)
qed

lemma Handle_equals_iff: "Handle_equals a b \<longleftrightarrow> a = b"
  by (cases a; cases b) (simp add: Handle_equals_def)

lemma member_Handle_equals: "member_eq Handle_equals xs c \<longleftrightarrow> c \<in> set xs"
  by (auto simp: member_eq_iff Handle_equals_iff)

lemma AddConstants_snoc:
  "AddConstants hasher (cs @ [c]) zone_in mh =
     (case AddConstants hasher cs zone_in mh of
        Inl f \<Rightarrow> Inl f
      | Inr (m, h) \<Rightarrow> AddConstant hasher c zone_in m h)"
  by (simp add: AddConstants_def)

lemma AddConstants_elements:
  assumes "distinct cs"
  shows "\<exists>m h. AddConstants hasher cs zone_in (empty_cells :: ('c, 'b) Cells, Hints_empty) = Inr (m, h) \<and>
           zone_ok zone_in True h \<and>
           wf_zone (constants_cells m) \<and>
           data (constants_of h) \<le> length (constants_cells m) \<and>
           elements (constants_cells m) (data (constants_of h)) = rev (take kMaxHintsSize cs)"
  using assms
proof (induction cs rule: rev_induct)
  case Nil
  show ?case
    by (simp add: AddConstants_def Hints_empty_def empty_cells_def constants_of_def
          empty_set_def zone_ok_def)
next
  case (snoc c cs)
  from snoc.prems have d: "distinct cs" "c \<notin> set cs" by simp_all
  from snoc.IH [OF d(1)] obtain m0 h0 where
    r: "AddConstants hasher cs zone_in (empty_cells :: ('c, 'b) Cells, Hints_empty) = Inr (m0, h0)"
    and ok: "zone_ok zone_in True h0"
    and wf: "wf_zone (constants_cells m0)"
    and le: "data (constants_of h0) \<le> length (constants_cells m0)"
    and el: "elements (constants_cells m0) (data (constants_of h0)) =
               rev (take kMaxHintsSize cs)"
    by blast
  have sz: "Size (constants_cells m0) (constants_of h0) = min kMaxHintsSize (length cs)"
    using wf el by (simp add: Size_def list_Size_length min.commute)
  have step: "AddConstants hasher (cs @ [c]) zone_in (empty_cells :: ('c, 'b) Cells, Hints_empty) =
                AddConstant hasher c zone_in m0 h0"
    using r by (simp add: AddConstants_snoc)
  from EnsureAllocated_ok [OF ok] obtain i where
    i: "EnsureAllocated zone_in True h0 = Inr i" "constants i = constants_of h0"
       "impl_zone i = zone_in"
    by blast
  obtain z' s' where
    a: "Add_capped Handle_equals hasher c (constants_cells m0) (constants_of h0) = (z', s')"
    by force
  have res: "AddConstant hasher c zone_in m0 h0 =
               Inr (m0\<lparr>constants_cells := z'\<rparr>, \<lparr>impl = Some (i\<lparr>constants := s'\<rparr>)\<rparr>)"
    using i a by (simp add: AddConstant_def)
  have ok': "zone_ok zone_in True \<lparr>impl = Some (i\<lparr>constants := s'\<rparr>)\<rparr>"
    using i(3) by (simp add: zone_ok_def)
  have "wf_zone z' \<and> data s' \<le> length z' \<and>
        elements z' (data s') = rev (take kMaxHintsSize (cs @ [c]))"
  proof (cases "kMaxHintsSize \<le> length cs")
    case True
    with sz have "kMaxHintsSize \<le> Size (constants_cells m0) (constants_of h0)" by simp
    with a have "z' = constants_cells m0" "s' = constants_of h0"
      by (simp_all add: Add_capped_full)
    with wf le el True show ?thesis by simp
  next
    case False
    with sz have "\<not> kMaxHintsSize \<le> Size (constants_cells m0) (constants_of h0)" by simp
    with a have ad: "Add Handle_equals hasher c (constants_cells m0) (constants_of h0) = (z', s')"
      by (simp add: Add_capped_room)
    have nm: "\<not> member_eq Handle_equals (elements (constants_cells m0) (data (constants_of h0))) c"
      using d(2) by (auto simp: el member_Handle_equals dest: in_set_takeD)
    have "elements z' (data s') = c # rev (take kMaxHintsSize cs)"
      using Add_elements [OF le ad] nm el by simp
    moreover have "wf_zone z' \<and> data s' \<le> length z'" using Add_wf [OF wf le ad] .
    ultimately show ?thesis using False by simp
  qed
  then show ?case
    using step res ok' by (simp add: constants_of_def)
qed

section \<open>Equality of sets\<close>

text \<open>
  Claim C1. \<^verbatim>\<open>operator==\<close> holds of two sets exactly when their backing lists are
  trivially equal, that is \<^verbatim>\<open>data_\<close> is the same pointer, or else the size
  counters of the two lists are equal, the stored running hashes \<^verbatim>\<open>hash_\<close> are
  equal and each set includes the other: every element of one has an equal element in the
  other. \<^verbatim>\<open>Size()\<close>, \<^verbatim>\<open>Hash()\<close>, \<^verbatim>\<open>TriviallyEquals\<close> and
  \<^verbatim>\<open>Includes\<close> are these readings, and \<^verbatim>\<open>operator!=\<close> is the negation.
\<close>

theorem operator_eq_spec:
  "(operator_eq equal_to z a b \<longleftrightarrow>
      data a = data b \<or>
      (list_Size z (data a) = list_Size z (data b) \<and> hash a = hash b \<and>
       (\<forall>y\<in>set (elements z (data b)). \<exists>x\<in>set (elements z (data a)). equal_to x y) \<and>
       (\<forall>x\<in>set (elements z (data a)). \<exists>y\<in>set (elements z (data b)). equal_to y x))) \<and>
   (operator_eq equal_to z a b \<longleftrightarrow>
      TriviallyEquals (data a) (data b) \<or>
      (Size z a = Size z b \<and> Hash a = Hash b \<and>
       Includes equal_to z a b \<and> Includes equal_to z b a)) \<and>
   Size z a = list_Size z (data a) \<and>
   Hash a = hash a \<and>
   (TriviallyEquals (data a) (data b) \<longleftrightarrow> data a = data b) \<and>
   (Includes equal_to z a b \<longleftrightarrow>
      (\<forall>y\<in>set (elements z (data b)). \<exists>x\<in>set (elements z (data a)). equal_to x y)) \<and>
   (operator_neq equal_to z a b \<longleftrightarrow> \<not> operator_eq equal_to z a b)"
  by (simp add: operator_eq_def operator_neq_def Size_def Hash_def TriviallyEquals_def
        Includes_iff)

theorem operator_eq_spec_witness:
  "operator_eq (=) (zone two_orders) (vars two_orders 0) (vars two_orders 1) \<and>
   data (vars two_orders 0) \<noteq> data (vars two_orders 1) \<and>
   hash (vars two_orders 0) = 3 \<and> Hash (vars two_orders 1) = 3 \<and>
   operator_neq (=) (zone two_orders) (vars two_orders 0) (vars two_orders 2) \<and>
   elements twin_zone (data twin_a) = [7] \<and> elements twin_zone (data twin_b) = [7] \<and>
   hash twin_a \<noteq> hash twin_b \<and>
   \<not> operator_eq (=) twin_zone twin_a twin_b \<and>
   operator_eq (=) twin_zone twin_a (twin_b\<lparr>hash := hash twin_a\<rparr>)"
proof -
  have 1: "data (vars two_orders 0) \<noteq> data (vars two_orders 1)"
    unfolding two_orders_def by code_simp
  have 2: "list_Size (zone two_orders) (data (vars two_orders 0)) =
           list_Size (zone two_orders) (data (vars two_orders 1))"
    unfolding two_orders_def by code_simp
  have 3: "hash (vars two_orders 0) = 3" "hash (vars two_orders 1) = 3"
    unfolding two_orders_def by code_simp+
  have 4: "elements (zone two_orders) (data (vars two_orders 0)) = [2, 1]"
    "elements (zone two_orders) (data (vars two_orders 1)) = [1, 2]"
    unfolding two_orders_def by code_simp+
  have 6: "data (vars two_orders 0) \<noteq> data (vars two_orders 2)"
    unfolding two_orders_def by code_simp
  have 7: "list_Size (zone two_orders) (data (vars two_orders 0)) \<noteq>
           list_Size (zone two_orders) (data (vars two_orders 2))"
    unfolding two_orders_def by code_simp
  have h: "hash (vars two_orders 0) = hash (vars two_orders 1)"
    unfolding 3 by simp
  have i1: "\<forall>y\<in>set (elements (zone two_orders) (data (vars two_orders 1))).
              \<exists>x\<in>set (elements (zone two_orders) (data (vars two_orders 0))). x = y"
    unfolding 4 by simp
  have i2: "\<forall>x\<in>set (elements (zone two_orders) (data (vars two_orders 0))).
              \<exists>y\<in>set (elements (zone two_orders) (data (vars two_orders 1))). y = x"
    unfolding 4 by simp
  have a: "operator_eq (=) (zone two_orders) (vars two_orders 0) (vars two_orders 1)"
    using operator_eq_spec [of "(=)" "zone two_orders" "vars two_orders 0" "vars two_orders 1"]
      2 h i1 i2 by blast
  have "Hash (vars two_orders 1) = hash (vars two_orders 1)"
    using operator_eq_spec [of "(=)" "zone two_orders" "vars two_orders 1" "vars two_orders 1"]
    by blast
  then have b: "Hash (vars two_orders 1) = 3" unfolding 3 .
  have c: "operator_neq (=) (zone two_orders) (vars two_orders 0) (vars two_orders 2)"
    using operator_eq_spec [of "(=)" "zone two_orders" "vars two_orders 0" "vars two_orders 2"]
      6 7 by blast
  have e: "elements twin_zone (data twin_a) = [7]" "elements twin_zone (data twin_b) = [7]"
    unfolding twin_zone_def twin_a_def twin_b_def by code_simp+
  have t1: "data twin_a \<noteq> data twin_b" unfolding twin_a_def twin_b_def by code_simp
  have t2: "hash twin_a \<noteq> hash twin_b" unfolding twin_a_def twin_b_def by simp
  have t3: "list_Size twin_zone (data twin_a) = list_Size twin_zone (data twin_b)"
    unfolding twin_zone_def twin_a_def twin_b_def by code_simp
  have d1: "\<not> operator_eq (=) twin_zone twin_a twin_b"
    using operator_eq_spec [of "(=)" twin_zone twin_a twin_b] t1 t2 by blast
  have u1: "list_Size twin_zone (data twin_a) =
            list_Size twin_zone (data (twin_b\<lparr>hash := hash twin_a\<rparr>))"
    using t3 by simp
  have u2: "hash twin_a = hash (twin_b\<lparr>hash := hash twin_a\<rparr>)" by simp
  have u3: "\<forall>y\<in>set (elements twin_zone (data (twin_b\<lparr>hash := hash twin_a\<rparr>))).
              \<exists>x\<in>set (elements twin_zone (data twin_a)). x = y"
    by (simp add: e)
  have u4: "\<forall>x\<in>set (elements twin_zone (data twin_a)).
              \<exists>y\<in>set (elements twin_zone (data (twin_b\<lparr>hash := hash twin_a\<rparr>))). y = x"
    by (simp add: e)
  have d2: "operator_eq (=) twin_zone twin_a (twin_b\<lparr>hash := hash twin_a\<rparr>)"
    using operator_eq_spec [of "(=)" twin_zone twin_a "twin_b\<lparr>hash := hash twin_a\<rparr>"]
      u1 u2 u3 u4 by blast
  from 1 3(1) a b c e t2 d1 d2 show ?thesis by blast
qed

section \<open>Add\<close>

text \<open>
  Claim C2. For a set whose list lives in the zone, \<^verbatim>\<open>Add(e)\<close> changes nothing
  (neither the zone nor the set, so size, membership and hash stay) when an element equal
  to \<open>e\<close> is present; otherwise it prepends \<open>e\<close> in a new cell whose tail is the old
  list, the size grows by one and the hash of \<open>e\<close> is XORed into the running hash. When
  \<open>e\<close> is equal to itself, a second \<^verbatim>\<open>Add(e)\<close> changes nothing.
\<close>

theorem Add_spec:
  assumes "data s \<le> length z"
  shows "(member_eq equal_to (elements z (data s)) e \<longrightarrow> Add equal_to hasher e z s = (z, s)) \<and>
   (\<not> member_eq equal_to (elements z (data s)) e \<longrightarrow>
      (case Add equal_to hasher e z s of
         (z', s') \<Rightarrow>
           elements z' (data s') = e # elements z (data s) \<and>
           cell z' (data s') = Some \<lparr>cell_top = e, cell_rest = data s, cell_size = Suc (Size z s)\<rparr> \<and>
           Size z' s' = Suc (Size z s) \<and>
           Hash s' = Hash s XOR hasher e)) \<and>
   (equal_to e e \<longrightarrow>
      (case Add equal_to hasher e z s of
         (z1, s1) \<Rightarrow> Add equal_to hasher e z1 s1 = (z1, s1)))"
proof (intro conjI impI)
  assume "member_eq equal_to (elements z (data s)) e"
  then show "Add equal_to hasher e z s = (z, s)" by (rule Add_present)
next
  assume "\<not> member_eq equal_to (elements z (data s)) e"
  then show "case Add equal_to hasher e z s of
         (z', s') \<Rightarrow>
           elements z' (data s') = e # elements z (data s) \<and>
           cell z' (data s') = Some \<lparr>cell_top = e, cell_rest = data s, cell_size = Suc (Size z s)\<rparr> \<and>
           Size z' s' = Suc (Size z s) \<and>
           Hash s' = Hash s XOR hasher e"
    using assms by (simp add: Add_absent elements_newest Size_def Hash_def list_Size_def)
next
  assume r: "equal_to e e"
  obtain z1 s1 where a: "Add equal_to hasher e z s = (z1, s1)" by force
  have "member_eq equal_to (elements z1 (data s1)) e"
    using r by (simp add: Add_elements [OF assms a]) (simp add: member_eq_iff)
  then have "Add equal_to hasher e z1 s1 = (z1, s1)" by (rule Add_present)
  with a show "case Add equal_to hasher e z s of
         (z1, s1) \<Rightarrow> Add equal_to hasher e z1 s1 = (z1, s1)" by simp
qed

theorem Add_spec_witness:
  "data empty_set \<le> length ([] :: nat Zone) \<and>
   Add (=) nat_hasher 5 [] empty_set =
     ([\<lparr>cell_top = 5, cell_rest = 0, cell_size = 1\<rparr>], \<lparr>data = 1, hash = 5\<rparr>) \<and>
   Add (=) nat_hasher 5 [\<lparr>cell_top = 5, cell_rest = 0, cell_size = 1\<rparr>] \<lparr>data = 1, hash = 5\<rparr> =
     ([\<lparr>cell_top = 5, cell_rest = 0, cell_size = 1\<rparr>], \<lparr>data = 1, hash = 5\<rparr>)"
proof -
  have h: "data empty_set \<le> length ([] :: nat Zone)" by (simp add: empty_set_def)
  have a: "Add (=) nat_hasher 5 [] empty_set =
     ([\<lparr>cell_top = 5, cell_rest = 0, cell_size = 1\<rparr>], \<lparr>data = 1, hash = 5\<rparr>)"
    by code_simp
  show ?thesis
    using h a Add_spec [OF h, of "(=)" 5 nat_hasher] by simp
qed

section \<open>Union\<close>

text \<open>
  Claim C3. For two sets without duplicates in a well-formed zone, under a symmetric and
  transitive equality: after \<^verbatim>\<open>a.Union(b)\<close> the members of the receiver are
  exactly the members of \<open>a\<close> or of \<open>b\<close>, and it has no duplicates. When the two
  lists are trivially equal nothing changes. Otherwise the larger list (the receiver's on
  a tie) is the tail of the result and every element of the smaller one is added to it
  with \<^verbatim>\<open>Add\<close>, one after the other.
\<close>

theorem Union_spec:
  assumes "wf_zone z" "data a \<le> length z" "data b \<le> length z"
    and "symp equal_to" "transp equal_to"
    and "no_duplicates equal_to (elements z (data a))"
    and "no_duplicates equal_to (elements z (data b))"
  shows "case Union_set equal_to hasher b z a of
      (z', r) \<Rightarrow>
        (\<forall>e. member_eq equal_to (elements z' (data r)) e \<longleftrightarrow>
               member_eq equal_to (elements z (data a)) e \<or>
               member_eq equal_to (elements z (data b)) e) \<and>
        no_duplicates equal_to (elements z' (data r)) \<and>
        (TriviallyEquals (data a) (data b) \<longrightarrow> z' = z \<and> r = a) \<and>
        (\<not> TriviallyEquals (data a) (data b) \<longrightarrow>
           (let large = (if Size z a < Size z b then data b else data a);
                small = (if Size z a < Size z b then data a else data b)
            in (z', r) = Add_all equal_to hasher (elements z small) z (a\<lparr>data := large\<rparr>) \<and>
               (\<exists>pre. elements z' (data r) = pre @ elements z large \<and>
                      set pre \<subseteq> set (elements z small))))"
proof -
  obtain z' r where u: "Union_set equal_to hasher b z a = (z', r)" by force
  note el = Union_set_elements [OF assms(1-3) u]
  note sa = no_duplicates_sorted [OF assms(6)]
  note sb = no_duplicates_sorted [OF assms(7)]
  have mem: "member_eq equal_to (elements z' (data r)) e \<longleftrightarrow>
               member_eq equal_to (elements z (data a)) e \<or>
               member_eq equal_to (elements z (data b)) e" for e
    unfolding el using added_member [OF assms(5)] by auto
  have "sorted_wrt (\<lambda>x y. \<not> equal_to y x) (elements z' (data r))"
    unfolding el using sa sb by (simp add: added_sorted)
  then have nd: "no_duplicates equal_to (elements z' (data r))"
    using assms(4) by (intro sorted_no_duplicates)
  have triv: "TriviallyEquals (data a) (data b) \<longrightarrow> z' = z \<and> r = a"
    using u by (auto simp: Union_set_def)
  have rest: "\<not> TriviallyEquals (data a) (data b) \<longrightarrow>
           (let large = (if Size z a < Size z b then data b else data a);
                small = (if Size z a < Size z b then data a else data b)
            in (z', r) = Add_all equal_to hasher (elements z small) z (a\<lparr>data := large\<rparr>) \<and>
               (\<exists>pre. elements z' (data r) = pre @ elements z large \<and>
                      set pre \<subseteq> set (elements z small)))"
  proof
    assume nt: "\<not> TriviallyEquals (data a) (data b)"
    then have ne: "data a \<noteq> data b" by (simp add: TriviallyEquals_def)
    show "let large = (if Size z a < Size z b then data b else data a);
              small = (if Size z a < Size z b then data a else data b)
          in (z', r) = Add_all equal_to hasher (elements z small) z (a\<lparr>data := large\<rparr>) \<and>
             (\<exists>pre. elements z' (data r) = pre @ elements z large \<and>
                    set pre \<subseteq> set (elements z small))"
    proof (cases "Size z a < Size z b")
      case True
      then have lt: "list_Size z (data a) < list_Size z (data b)" by (simp add: Size_def)
      have 1: "(z', r) = Add_all equal_to hasher (elements z (data a)) z (a\<lparr>data := data b\<rparr>)"
        using u ne lt by (simp add: Union_set_Add_all [OF assms(1-3)])
      have 2: "\<exists>pre. elements z' (data r) = pre @ elements z (data b) \<and>
                     set pre \<subseteq> set (elements z (data a))"
        unfolding el using ne lt added_tail [of equal_to "elements z (data a)"] by simp
      from True 1 2 show ?thesis by (simp add: Let_def)
    next
      case False
      then have lt: "\<not> list_Size z (data a) < list_Size z (data b)" by (simp add: Size_def)
      have 1: "(z', r) = Add_all equal_to hasher (elements z (data b)) z a"
        using u ne lt by (simp add: Union_set_Add_all [OF assms(1-3)])
      have 2: "\<exists>pre. elements z' (data r) = pre @ elements z (data a) \<and>
                     set pre \<subseteq> set (elements z (data b))"
        unfolding el using ne lt added_tail [of equal_to "elements z (data b)"] by simp
      from False 1 2 show ?thesis by (simp add: Let_def)
    qed
  qed
  from mem nd triv rest show ?thesis unfolding u by simp
qed

theorem Union_spec_witness:
  "wf_zone (zone one_and_two) \<and>
   data (vars one_and_two 0) \<le> length (zone one_and_two) \<and>
   data (vars one_and_two 1) \<le> length (zone one_and_two) \<and>
   symp ((=) :: nat \<Rightarrow> nat \<Rightarrow> bool) \<and> transp ((=) :: nat \<Rightarrow> nat \<Rightarrow> bool) \<and>
   no_duplicates (=) (elements (zone one_and_two) (data (vars one_and_two 0))) \<and>
   no_duplicates (=) (elements (zone one_and_two) (data (vars one_and_two 1))) \<and>
   \<not> TriviallyEquals (data (vars one_and_two 0)) (data (vars one_and_two 1)) \<and>
   (case Union_set (=) nat_hasher (vars one_and_two 1) (zone one_and_two) (vars one_and_two 0) of
      (z', r) \<Rightarrow>
        no_duplicates (=) (elements z' (data r)) \<and>
        (\<forall>e. member_eq (=) (elements z' (data r)) e \<longleftrightarrow> e = 1 \<or> e = 2 \<or> e = 4))"
proof -
  have h1: "wf_zone (zone one_and_two)" unfolding one_and_two_def by code_simp
  have h2: "data (vars one_and_two 0) \<le> length (zone one_and_two)"
    unfolding one_and_two_def by code_simp
  have h3: "data (vars one_and_two 1) \<le> length (zone one_and_two)"
    unfolding one_and_two_def by code_simp
  have h4: "symp ((=) :: nat \<Rightarrow> nat \<Rightarrow> bool)" by (simp add: symp_def)
  have h5: "transp ((=) :: nat \<Rightarrow> nat \<Rightarrow> bool)" by (simp add: transp_def)
  have ea: "elements (zone one_and_two) (data (vars one_and_two 0)) = [1]"
    unfolding one_and_two_def by code_simp
  have eb: "elements (zone one_and_two) (data (vars one_and_two 1)) = [4, 2]"
    unfolding one_and_two_def by code_simp
  have h6: "no_duplicates (=) (elements (zone one_and_two) (data (vars one_and_two 0)))"
    unfolding ea by code_simp
  have h7: "no_duplicates (=) (elements (zone one_and_two) (data (vars one_and_two 1)))"
    unfolding eb by code_simp
  have h8: "\<not> TriviallyEquals (data (vars one_and_two 0)) (data (vars one_and_two 1))"
    unfolding one_and_two_def by code_simp
  have m: "member_eq (=) [1] e \<or> member_eq (=) [4, 2] e \<longleftrightarrow> e = 1 \<or> e = 2 \<or> e = (4::nat)" for e
    by (auto simp: member_eq_def)
  obtain z' r where u: "Union_set (=) nat_hasher (vars one_and_two 1) (zone one_and_two)
      (vars one_and_two 0) = (z', r)" by force
  have c: "(\<forall>e. member_eq (=) (elements z' (data r)) e \<longleftrightarrow>
                member_eq (=) [1] e \<or> member_eq (=) [4, 2] e) \<and>
           no_duplicates (=) (elements z' (data r))"
    using Union_spec [OF h1 h2 h3 h4 h5 h6 h7, of nat_hasher] unfolding u ea eb prod.case
    by blast
  show ?thesis
    unfolding u prod.case using h1 h2 h3 h4 h5 h6 h7 h8 c m by blast
qed

section \<open>The invariant of sets\<close>

text \<open>
  Claim C6. Under a symmetric equality, every set variable of every program of
  \<^verbatim>\<open>Add\<close> and \<^verbatim>\<open>Union\<close> calls started from empty sets holds no two elements
  equal under the equality, and its \<^verbatim>\<open>Size()\<close> is the number of elements of its
  backing list.
\<close>

theorem set_invariant:
  assumes "symp equal_to"
  shows "no_duplicates equal_to (elems (run equal_to hasher ops) i) \<and>
         Size (zone (run equal_to hasher ops)) (vars (run equal_to hasher ops) i) =
           length (elems (run equal_to hasher ops) i)"
proof -
  have inv: "inv_state equal_to (run equal_to hasher ops)" by (rule inv_run)
  then have "sorted_wrt (\<lambda>a b. \<not> equal_to b a) (elems (run equal_to hasher ops) i)"
    by (simp add: inv_state_def)
  then have "no_duplicates equal_to (elems (run equal_to hasher ops) i)"
    using assms by (intro sorted_no_duplicates)
  moreover have "wf_zone (zone (run equal_to hasher ops))"
    using inv by (simp add: inv_state_def)
  ultimately show ?thesis by (simp add: Size_def elems_def list_Size_length)
qed

theorem set_invariant_witness:
  "symp ((=) :: nat \<Rightarrow> nat \<Rightarrow> bool) \<and>
   elems (run (=) nat_hasher small_program) 0 = [1, 4, 2] \<and>
   no_duplicates (=) (elems (run (=) nat_hasher small_program) 0) \<and>
   Size (zone (run (=) nat_hasher small_program)) (vars (run (=) nat_hasher small_program) 0) = 3"
proof -
  have h: "symp ((=) :: nat \<Rightarrow> nat \<Rightarrow> bool)" by (simp add: symp_def)
  have e: "elems (run (=) nat_hasher small_program) 0 = [1, 4, 2]"
    unfolding small_program_def by code_simp
  show ?thesis
    using h e set_invariant [OF h, of nat_hasher small_program 0] by simp
qed

section \<open>The argument of Union\<close>

text \<open>
  Claim C10. \<^verbatim>\<open>v_i.Union(v_j, zone)\<close> leaves the caller's set \<open>v_j\<close> as it
  was: the same pointer and hash, and in the new zone the same elements, size and
  membership. This holds after every program, and also when \<open>i = j\<close>.
\<close>

theorem Union_preserves_argument:
  "(let st = run equal_to hasher ops; st' = step equal_to hasher st (UnionOp i j)
    in vars st' j = vars st j \<and>
       elems st' j = elems st j \<and>
       Size (zone st') (vars st' j) = Size (zone st) (vars st j) \<and>
       Hash (vars st' j) = Hash (vars st j) \<and>
       (\<forall>y. member_eq equal_to (elems st' j) y \<longleftrightarrow> member_eq equal_to (elems st j) y))"
proof -
  define st where "st = run equal_to hasher ops"
  define st' where "st' = step equal_to hasher st (UnionOp i j)"
  have inv: "inv_state equal_to st" unfolding st_def by (rule inv_run)
  then have p: "wf_zone (zone st)" "data (vars st i) \<le> length (zone st)"
    "data (vars st j) \<le> length (zone st)"
    by (simp_all add: inv_state_def)
  obtain z' s' where
    u: "Union_set equal_to hasher (vars st j) (zone st) (vars st i) = (z', s')" by force
  obtain zs where zs: "z' = zs @ zone st" using Union_set_extends [OF p u] by blast
  have st': "st' = \<lparr>zone = z', vars = (vars st)(i := s')\<rparr>"
    using u by (simp add: st'_def)
  have same: "vars st' j = vars st j"
  proof (cases "i = j")
    case True
    with u have "s' = vars st j" by (simp add: Union_set_def TriviallyEquals_def)
    with True show ?thesis by (simp add: st')
  next
    case False
    then show ?thesis by (simp add: st')
  qed
  have el: "elems st' j = elems st j"
    using p(3) by (simp add: elems_def same) (simp add: st' zs elements_append)
  have sz: "Size (zone st') (vars st' j) = Size (zone st) (vars st j)"
    using p(3) by (simp add: Size_def same) (simp add: st' zs list_Size_append)
  show ?thesis
    unfolding Let_def st_def [symmetric] st'_def [symmetric] using same el sz by simp
qed

theorem Union_preserves_argument_witness:
  "elems (step (=) nat_hasher (run (=) nat_hasher [AddOp 0 1, AddOp 1 2, AddOp 1 4]) (UnionOp 0 1)) 1 =
     elems (run (=) nat_hasher [AddOp 0 1, AddOp 1 2, AddOp 1 4]) 1 \<and>
   elems (run (=) nat_hasher [AddOp 0 1, AddOp 1 2, AddOp 1 4]) 1 = [4, 2] \<and>
   elems (step (=) nat_hasher (run (=) nat_hasher [AddOp 0 1, AddOp 1 2, AddOp 1 4]) (UnionOp 0 1)) 0 = [1, 4, 2]"
proof -
  have e: "elems (run (=) nat_hasher [AddOp 0 1, AddOp 1 2, AddOp 1 4]) 1 = [4, 2]"
    by code_simp
  have f: "elems (step (=) nat_hasher (run (=) nat_hasher [AddOp 0 1, AddOp 1 2, AddOp 1 4]) (UnionOp 0 1)) 0 = [1, 4, 2]"
    by code_simp
  show ?thesis
    using e f Union_preserves_argument [of "(=)" nat_hasher "[AddOp 0 1, AddOp 1 2, AddOp 1 4]" 0 1]
    by (simp add: Let_def)
qed

section \<open>Context records\<close>

text \<open>
  Claim C8. The constructor of \<^verbatim>\<open>VirtualContext\<close> fails its check exactly when
  the distance is zero, the only non-positive value of an \<^verbatim>\<open>unsigned int\<close>; a
  constructed record has a strictly positive distance and holds the arguments. Two
  records are equal when their context handles are the same reference and their distances
  are the same.
\<close>

theorem VirtualContext_spec:
  "(VirtualContext_new d c = Inl CheckFailed \<longleftrightarrow> d = 0) \<and>
   (VirtualContext_new d c = Inr v \<longrightarrow> 0 < unat (distance v) \<and> distance v = d \<and> context_handle v = c) \<and>
   (VirtualContext_operator_eq v w \<longleftrightarrow>
      location (context_handle v) = location (context_handle w) \<and> distance v = distance w)"
  by (auto simp: VirtualContext_new_def VirtualContext_operator_eq_def Handle_equals_def
        word_greater_zero_iff unat_gt_0)

theorem VirtualContext_spec_witness:
  "VirtualContext_new 0 (Handle 7) = Inl CheckFailed \<and>
   VirtualContext_new 3 (Handle 7) = Inr \<lparr>distance = 3, context_handle = Handle 7\<rparr> \<and>
   0 < unat (distance \<lparr>distance = 3, context_handle = Handle 7\<rparr>) \<and>
   VirtualContext_operator_eq \<lparr>distance = 3, context_handle = Handle 7\<rparr>
     \<lparr>distance = 3, context_handle = Handle 7\<rparr> \<and>
   \<not> VirtualContext_operator_eq \<lparr>distance = 3, context_handle = Handle 7\<rparr>
     \<lparr>distance = 4, context_handle = Handle 7\<rparr>"
proof -
  have n: "VirtualContext_new 3 (Handle 7) = Inr \<lparr>distance = 3, context_handle = Handle 7\<rparr>"
    by (simp add: VirtualContext_new_def)
  show ?thesis
    using n
      VirtualContext_spec [of 0 "Handle 7"]
      VirtualContext_spec [of 3 "Handle 7" "\<lparr>distance = 3, context_handle = Handle 7\<rparr>"
        "\<lparr>distance = 3, context_handle = Handle 7\<rparr>"]
      VirtualContext_spec [of 3 "Handle 7" "\<lparr>distance = 3, context_handle = Handle 7\<rparr>"
        "\<lparr>distance = 4, context_handle = Handle 7\<rparr>"]
    by simp
qed

section \<open>The size cap of hints\<close>

text \<open>
  Claim C7. For each of the five mutators \<^verbatim>\<open>AddConstant\<close>, \<^verbatim>\<open>AddMap\<close>,
  \<^verbatim>\<open>AddVirtualClosure\<close>, \<^verbatim>\<open>AddVirtualContext\<close> and
  \<^verbatim>\<open>AddVirtualBoundFunction\<close>: when the zone check of
  \<^verbatim>\<open>EnsureAllocated\<close> fails the call aborts; when it passes and the category holds
  \<^verbatim>\<open>kMaxHintsSize\<close> = 50 elements or more, the addition is dropped, leaving the
  cells and all five categories as they were; when it passes and the category is below
  the cap, the category is what \<^verbatim>\<open>Add\<close> makes of it; and a category within the
  cap stays within it. Adding distinct constants to empty hints, always in one zone,
  never aborts and retains the first 50 of them; in particular 60 distinct constants give
  exactly 50 elements, the first 50.
\<close>

theorem cap_enforcement:
  "((\<not> zone_ok zone_in True h \<longrightarrow> AddConstant hasher_c constant_in zone_in m h = Inl CheckFailed) \<and>
    (zone_ok zone_in True h \<and> kMaxHintsSize \<le> Size (constants_cells m) (constants_of h) \<longrightarrow>
       (\<exists>h'. AddConstant hasher_c constant_in zone_in m h = Inr (m, h') \<and> categories h' = categories h)) \<and>
    (zone_ok zone_in True h \<and> \<not> kMaxHintsSize \<le> Size (constants_cells m) (constants_of h) \<longrightarrow>
       (case Add Handle_equals hasher_c constant_in (constants_cells m) (constants_of h) of
          (z', s') \<Rightarrow>
            \<exists>h'. AddConstant hasher_c constant_in zone_in m h = Inr (m\<lparr>constants_cells := z'\<rparr>, h') \<and> constants_of h' = s')) \<and>
    (zone_ok zone_in True h \<and> Size (constants_cells m) (constants_of h) \<le> kMaxHintsSize \<longrightarrow>
       (\<exists>m' h'. AddConstant hasher_c constant_in zone_in m h = Inr (m', h') \<and> Size (constants_cells m') (constants_of h') \<le> kMaxHintsSize))) \<and>
   ((\<not> zone_ok zone_in check_zone_equality h \<longrightarrow> AddMap hasher_m map_in zone_in check_zone_equality m h = Inl CheckFailed) \<and>
    (zone_ok zone_in check_zone_equality h \<and> kMaxHintsSize \<le> Size (maps_cells m) (maps_of h) \<longrightarrow>
       (\<exists>h'. AddMap hasher_m map_in zone_in check_zone_equality m h = Inr (m, h') \<and> categories h' = categories h)) \<and>
    (zone_ok zone_in check_zone_equality h \<and> \<not> kMaxHintsSize \<le> Size (maps_cells m) (maps_of h) \<longrightarrow>
       (case Add Handle_equals hasher_m map_in (maps_cells m) (maps_of h) of
          (z', s') \<Rightarrow>
            \<exists>h'. AddMap hasher_m map_in zone_in check_zone_equality m h = Inr (m\<lparr>maps_cells := z'\<rparr>, h') \<and> maps_of h' = s')) \<and>
    (zone_ok zone_in check_zone_equality h \<and> Size (maps_cells m) (maps_of h) \<le> kMaxHintsSize \<longrightarrow>
       (\<exists>m' h'. AddMap hasher_m map_in zone_in check_zone_equality m h = Inr (m', h') \<and> Size (maps_cells m') (maps_of h') \<le> kMaxHintsSize))) \<and>
   ((\<not> zone_ok zone_in True h \<longrightarrow> AddVirtualClosure equal_vc hasher_vc virtual_closure zone_in m h = Inl CheckFailed) \<and>
    (zone_ok zone_in True h \<and> kMaxHintsSize \<le> Size (virtual_closures_cells m) (virtual_closures_of h) \<longrightarrow>
       (\<exists>h'. AddVirtualClosure equal_vc hasher_vc virtual_closure zone_in m h = Inr (m, h') \<and> categories h' = categories h)) \<and>
    (zone_ok zone_in True h \<and> \<not> kMaxHintsSize \<le> Size (virtual_closures_cells m) (virtual_closures_of h) \<longrightarrow>
       (case Add equal_vc hasher_vc virtual_closure (virtual_closures_cells m) (virtual_closures_of h) of
          (z', s') \<Rightarrow>
            \<exists>h'. AddVirtualClosure equal_vc hasher_vc virtual_closure zone_in m h = Inr (m\<lparr>virtual_closures_cells := z'\<rparr>, h') \<and> virtual_closures_of h' = s')) \<and>
    (zone_ok zone_in True h \<and> Size (virtual_closures_cells m) (virtual_closures_of h) \<le> kMaxHintsSize \<longrightarrow>
       (\<exists>m' h'. AddVirtualClosure equal_vc hasher_vc virtual_closure zone_in m h = Inr (m', h') \<and> Size (virtual_closures_cells m') (virtual_closures_of h') \<le> kMaxHintsSize))) \<and>
   ((\<not> zone_ok zone_in True h \<longrightarrow> AddVirtualContext hasher_vx virtual_context zone_in m h = Inl CheckFailed) \<and>
    (zone_ok zone_in True h \<and> kMaxHintsSize \<le> Size (virtual_contexts_cells m) (virtual_contexts_of h) \<longrightarrow>
       (\<exists>h'. AddVirtualContext hasher_vx virtual_context zone_in m h = Inr (m, h') \<and> categories h' = categories h)) \<and>
    (zone_ok zone_in True h \<and> \<not> kMaxHintsSize \<le> Size (virtual_contexts_cells m) (virtual_contexts_of h) \<longrightarrow>
       (case Add VirtualContext_operator_eq hasher_vx virtual_context (virtual_contexts_cells m) (virtual_contexts_of h) of
          (z', s') \<Rightarrow>
            \<exists>h'. AddVirtualContext hasher_vx virtual_context zone_in m h = Inr (m\<lparr>virtual_contexts_cells := z'\<rparr>, h') \<and> virtual_contexts_of h' = s')) \<and>
    (zone_ok zone_in True h \<and> Size (virtual_contexts_cells m) (virtual_contexts_of h) \<le> kMaxHintsSize \<longrightarrow>
       (\<exists>m' h'. AddVirtualContext hasher_vx virtual_context zone_in m h = Inr (m', h') \<and> Size (virtual_contexts_cells m') (virtual_contexts_of h') \<le> kMaxHintsSize))) \<and>
   ((\<not> zone_ok zone_in True h \<longrightarrow> AddVirtualBoundFunction equal_bf hasher_bf bound_function zone_in m h = Inl CheckFailed) \<and>
    (zone_ok zone_in True h \<and> kMaxHintsSize \<le> Size (virtual_bound_functions_cells m) (virtual_bound_functions_of h) \<longrightarrow>
       (\<exists>h'. AddVirtualBoundFunction equal_bf hasher_bf bound_function zone_in m h = Inr (m, h') \<and> categories h' = categories h)) \<and>
    (zone_ok zone_in True h \<and> \<not> kMaxHintsSize \<le> Size (virtual_bound_functions_cells m) (virtual_bound_functions_of h) \<longrightarrow>
       (case Add equal_bf hasher_bf bound_function (virtual_bound_functions_cells m) (virtual_bound_functions_of h) of
          (z', s') \<Rightarrow>
            \<exists>h'. AddVirtualBoundFunction equal_bf hasher_bf bound_function zone_in m h = Inr (m\<lparr>virtual_bound_functions_cells := z'\<rparr>, h') \<and> virtual_bound_functions_of h' = s')) \<and>
    (zone_ok zone_in True h \<and> Size (virtual_bound_functions_cells m) (virtual_bound_functions_of h) \<le> kMaxHintsSize \<longrightarrow>
       (\<exists>m' h'. AddVirtualBoundFunction equal_bf hasher_bf bound_function zone_in m h = Inr (m', h') \<and> Size (virtual_bound_functions_cells m') (virtual_bound_functions_of h') \<le> kMaxHintsSize))) \<and>
   (distinct cs \<longrightarrow>
      (\<exists>m' h'. AddConstants hasher_c cs zone_in (empty_cells :: ('c, 'b) Cells, Hints_empty) =
                 Inr (m', h') \<and>
               zone_ok zone_in True h' \<and>
               elements (constants_cells m') (data (constants_of h')) =
                 rev (take kMaxHintsSize cs) \<and>
               Size (constants_cells m') (constants_of h') = min kMaxHintsSize (length cs))) \<and>
   (distinct cs \<and> length cs = 60 \<longrightarrow>
      (\<exists>m' h'. AddConstants hasher_c cs zone_in (empty_cells :: ('c, 'b) Cells, Hints_empty) =
                 Inr (m', h') \<and>
               elements (constants_cells m') (data (constants_of h')) = rev (take 50 cs) \<and>
               Size (constants_cells m') (constants_of h') = 50))"
proof -
  have s1: "distinct cs \<longrightarrow>
      (\<exists>m' h'. AddConstants hasher_c cs zone_in (empty_cells :: ('c, 'b) Cells, Hints_empty) =
                 Inr (m', h') \<and>
               zone_ok zone_in True h' \<and>
               elements (constants_cells m') (data (constants_of h')) =
                 rev (take kMaxHintsSize cs) \<and>
               Size (constants_cells m') (constants_of h') = min kMaxHintsSize (length cs))"
  proof
    assume "distinct cs"
    from AddConstants_elements [OF this, of hasher_c zone_in] obtain m' h' where
      r: "AddConstants hasher_c cs zone_in (empty_cells :: ('c, 'b) Cells, Hints_empty) =
            Inr (m', h')"
      and p: "zone_ok zone_in True h'" "wf_zone (constants_cells m')"
        "elements (constants_cells m') (data (constants_of h')) = rev (take kMaxHintsSize cs)"
      by blast
    have "Size (constants_cells m') (constants_of h') = min kMaxHintsSize (length cs)"
      using p(2,3) by (simp add: Size_def list_Size_length min.commute)
    with r p show "\<exists>m' h'. AddConstants hasher_c cs zone_in
                 (empty_cells :: ('c, 'b) Cells, Hints_empty) = Inr (m', h') \<and>
               zone_ok zone_in True h' \<and>
               elements (constants_cells m') (data (constants_of h')) =
                 rev (take kMaxHintsSize cs) \<and>
               Size (constants_cells m') (constants_of h') = min kMaxHintsSize (length cs)"
      by blast
  qed
  have s2: "distinct cs \<and> length cs = 60 \<longrightarrow>
      (\<exists>m' h'. AddConstants hasher_c cs zone_in (empty_cells :: ('c, 'b) Cells, Hints_empty) =
                 Inr (m', h') \<and>
               elements (constants_cells m') (data (constants_of h')) = rev (take 50 cs) \<and>
               Size (constants_cells m') (constants_of h') = 50)"
    using s1 by (auto simp: kMaxHintsSize_def)
  show ?thesis
    by (rule conjI [OF AddConstant_cap conjI [OF AddMap_cap conjI [OF AddVirtualClosure_cap
          conjI [OF AddVirtualContext_cap conjI [OF AddVirtualBoundFunction_cap
          conjI [OF s1 s2]]]]]])
qed

theorem cap_enforcement_witness:
  "distinct sixty_constants \<and> length sixty_constants = 60 \<and>
   (\<exists>m' h'. AddConstants handle_hasher sixty_constants 1
               (empty_cells :: (nat, nat) Cells, Hints_empty) = Inr (m', h') \<and>
            elements (constants_cells m') (data (constants_of h')) = rev (map Handle [0..<50]) \<and>
            Size (constants_cells m') (constants_of h') = 50 \<and>
            zone_ok 1 True h' \<and> kMaxHintsSize \<le> Size (constants_cells m') (constants_of h') \<and>
            (\<exists>h''. AddConstant handle_hasher (Handle 77) 1 m' h' = Inr (m', h'') \<and>
                   categories h'' = categories h')) \<and>
   \<not> zone_ok 2 True hints_in_zone_1 \<and>
   AddConstant handle_hasher (Handle 3) 2 (empty_cells :: (nat, nat) Cells) hints_in_zone_1 =
     Inl CheckFailed \<and>
   zone_ok 2 False hints_in_zone_1 \<and>
   (\<exists>m' h'. AddMap handle_hasher (Handle 3) 2 False (empty_cells :: (nat, nat) Cells)
              hints_in_zone_1 = Inr (m', h') \<and>
            Size (maps_cells m') (maps_of h') \<le> kMaxHintsSize)"
proof -
  have d: "distinct sixty_constants"
    by (simp add: sixty_constants_def distinct_map inj_on_def)
  have l: "length sixty_constants = 60" by (simp add: sixty_constants_def)
  have t: "take kMaxHintsSize sixty_constants = map Handle [0..<50]"
    by (simp add: sixty_constants_def take_map kMaxHintsSize_def)
  have m: "min kMaxHintsSize (length sixty_constants) = 50"
    by (simp add: l kMaxHintsSize_def)
  note seq = cap_enforcement [where cs = sixty_constants and hasher_c = handle_hasher
      and zone_in = 1 and ?'c = nat and ?'b = nat,
      THEN conjunct2, THEN conjunct2, THEN conjunct2, THEN conjunct2, THEN conjunct2,
      THEN conjunct1, THEN mp, OF d]
  obtain m' h' where
    r: "AddConstants handle_hasher sixty_constants 1
          (empty_cells :: (nat, nat) Cells, Hints_empty) = Inr (m', h')"
    and p: "zone_ok 1 True h'"
      "elements (constants_cells m') (data (constants_of h')) = rev (map Handle [0..<50])"
      "Size (constants_cells m') (constants_of h') = 50"
    using seq unfolding t m by blast
  have f: "kMaxHintsSize \<le> Size (constants_cells m') (constants_of h')"
    by (simp add: p(3) kMaxHintsSize_def)
  have b: "\<exists>h''. AddConstant handle_hasher (Handle 77) 1 m' h' = Inr (m', h'') \<and>
                 categories h'' = categories h'"
    by (rule cap_enforcement [where hasher_c = handle_hasher and constant_in = "Handle 77"
        and zone_in = 1 and m = m' and h = h',
        THEN conjunct1, THEN conjunct2, THEN conjunct1, THEN mp, OF conjI [OF p(1) f]])
  have z: "\<not> zone_ok 2 True hints_in_zone_1"
    by (simp add: zone_ok_def hints_in_zone_1_def)
  have c: "AddConstant handle_hasher (Handle 3) 2 (empty_cells :: (nat, nat) Cells)
             hints_in_zone_1 = Inl CheckFailed"
    by (rule cap_enforcement [where hasher_c = handle_hasher and constant_in = "Handle 3"
        and zone_in = 2 and m = "empty_cells :: (nat, nat) Cells" and h = hints_in_zone_1,
        THEN conjunct1, THEN conjunct1, THEN mp, OF z])
  have z': "zone_ok 2 False hints_in_zone_1"
    by (simp add: zone_ok_def hints_in_zone_1_def)
  have sm: "Size (maps_cells (empty_cells :: (nat, nat) Cells)) (maps_of hints_in_zone_1)
              \<le> kMaxHintsSize"
    by (simp add: empty_cells_def maps_of_def hints_in_zone_1_def Size_def list_Size_def
          empty_set_def)
  have e: "\<exists>m' h'. AddMap handle_hasher (Handle 3) 2 False (empty_cells :: (nat, nat) Cells)
              hints_in_zone_1 = Inr (m', h') \<and>
            Size (maps_cells m') (maps_of h') \<le> kMaxHintsSize"
    by (rule cap_enforcement [where hasher_m = handle_hasher and map_in = "Handle 3"
        and zone_in = 2 and check_zone_equality = False
        and m = "empty_cells :: (nat, nat) Cells" and h = hints_in_zone_1,
        THEN conjunct2, THEN conjunct1, THEN conjunct2, THEN conjunct2, THEN conjunct2,
        THEN mp, OF conjI [OF z' sm]])
  have g: "\<exists>m' h'. AddConstants handle_hasher sixty_constants 1
               (empty_cells :: (nat, nat) Cells, Hints_empty) = Inr (m', h') \<and>
            elements (constants_cells m') (data (constants_of h')) = rev (map Handle [0..<50]) \<and>
            Size (constants_cells m') (constants_of h') = 50 \<and>
            zone_ok 1 True h' \<and> kMaxHintsSize \<le> Size (constants_cells m') (constants_of h') \<and>
            (\<exists>h''. AddConstant handle_hasher (Handle 77) 1 m' h' = Inr (m', h'') \<and>
                   categories h'' = categories h')"
    using r p f b by blast
  from d l g z c z' e show ?thesis by (intro conjI)
qed

section \<open>The running hash after Union\<close>

text \<open>
  Claim C9 says that the stored hash of every set built by \<^verbatim>\<open>Add\<close> and
  \<^verbatim>\<open>Union\<close> is the XOR of the hashes of its elements. \<^verbatim>\<open>Union\<close> swaps
  \<^verbatim>\<open>data_\<close> and keeps \<^verbatim>\<open>hash_\<close>: with \<open>v_0 = {1}\<close> and
  \<open>v_1 = {2, 4}\<close>, after \<^verbatim>\<open>v_0.Union(v_1)\<close> the set \<open>v_0\<close> holds 1, 4 and 2
  and its stored hash is \<open>1 XOR 1 = 0\<close>, while the XOR of the three hashes is 7.
\<close>

theorem Union_swap_hash:
  "elems (run (=) nat_hasher [AddOp 0 1, AddOp 1 2, AddOp 1 4, UnionOp 0 1]) 0 = [1, 4, 2] \<and>
   Hash (vars (run (=) nat_hasher [AddOp 0 1, AddOp 1 2, AddOp 1 4, UnionOp 0 1]) 0) = 0 \<and>
   xor_hashes nat_hasher [1, 4, 2] = 7"
  by code_simp

text \<open>
  Claim C4 says that \<^verbatim>\<open>Union\<close> is commutative and associative under
  \<^verbatim>\<open>operator==\<close>. With \<open>A = {1}\<close> and \<open>B = {2, 4}\<close>, the copy of \<open>A\<close>
  united with \<open>B\<close> and the copy of \<open>B\<close> united with \<open>A\<close> hold the same three
  elements, their stored hashes are 0 and 7, and \<^verbatim>\<open>operator==\<close> is false.
\<close>

theorem Union_not_commutative:
  "(case Union_set (=) nat_hasher (vars one_and_two 1) (zone one_and_two) (vars one_and_two 0) of
      (z1, ab) \<Rightarrow>
        (case Union_set (=) nat_hasher (vars one_and_two 0) z1 (vars one_and_two 1) of
           (z2, ba) \<Rightarrow>
             elements z2 (data ab) = [1, 4, 2] \<and> elements z2 (data ba) = [1, 4, 2] \<and>
             Hash ab = 0 \<and> Hash ba = 7 \<and>
             \<not> operator_eq (=) z2 ab ba))"
  unfolding one_and_two_def by code_simp

text \<open>
  Claim C5 says that equal sets have equal hashes. After \<^verbatim>\<open>v_1.Union(v_0)\<close> with
  \<open>v_1\<close> empty and \<open>v_0 = {1, 2}\<close>, the two variables share one list, so
  \<^verbatim>\<open>operator==\<close> is true, and their hashes are 3 and 0.
\<close>

theorem equal_sets_different_hash:
  "operator_eq (=) (zone (run (=) nat_hasher [AddOp 0 1, AddOp 0 2, UnionOp 1 0]))
     (vars (run (=) nat_hasher [AddOp 0 1, AddOp 0 2, UnionOp 1 0]) 0)
     (vars (run (=) nat_hasher [AddOp 0 1, AddOp 0 2, UnionOp 1 0]) 1) \<and>
   Hash (vars (run (=) nat_hasher [AddOp 0 1, AddOp 0 2, UnionOp 1 0]) 0) = 3 \<and>
   Hash (vars (run (=) nat_hasher [AddOp 0 1, AddOp 0 2, UnionOp 1 0]) 1) = 0"
  by code_simp

end
